theory Spec2Isabelle
  imports Complex_Main "HOL-Library.AList"
begin

section \<open>MiOrganizador: the day-closure engine and the monthly aggregator\<close>

text \<open>
  A shallow embedding of the pure functions of the habit tracker's screen component
  (\<^verbatim>\<open>pad2\<close>, \<^verbatim>\<open>toISODate\<close>, \<^verbatim>\<open>parseISO\<close>, \<^verbatim>\<open>addDays\<close>, \<^verbatim>\<open>addDaysISO\<close>,
  \<^verbatim>\<open>diffDays\<close>, \<^verbatim>\<open>daysInMonth\<close>, \<^verbatim>\<open>closeMissingDays\<close>, \<^verbatim>\<open>buildMonthlySeries\<close>) and of
  its state updates (\<^verbatim>\<open>onPressCell\<close>, \<^verbatim>\<open>addActivity\<close>, \<^verbatim>\<open>deleteActivity\<close>).

  The functions are written in TypeScript over the host's \<^verbatim>\<open>Date\<close>, \<^verbatim>\<open>Number\<close> and
  \<^verbatim>\<open>String\<close>. Those built-ins are modelled first, following the ECMAScript
  definitions (day numbers, \<^verbatim>\<open>MakeDay\<close>, \<^verbatim>\<open>TimeClip\<close>, \<^verbatim>\<open>StringToNumber\<close>); the
  functions of the program follow, one definition per source function.
\<close>

subsection \<open>ECMAScript numbers and strings\<close>

text \<open>
  A Number that the program obtains from a string: \<^verbatim>\<open>NaN\<close>, an infinity or a finite
  value. Finite values are kept exact (a rational); the rounding of a decimal literal to
  double precision is not modelled. Strings are lists of 8-bit characters.
\<close>

datatype jsnum = NaN | PosInf | NegInf | Num rat

text \<open>Numbers that are integral or \<^verbatim>\<open>NaN\<close> (day counts, calendar fields): \<open>None\<close> is \<^verbatim>\<open>NaN\<close>.\<close>

type_synonym number = "int option"

definition isStrWhiteSpaceChar :: "char \<Rightarrow> bool" where
  "isStrWhiteSpaceChar c =
     (c \<in> set [CHR 0x09, CHR 0x0A, CHR 0x0B, CHR 0x0C, CHR 0x0D, CHR 0x20, CHR 0xA0])"

definition trimString :: "string \<Rightarrow> string" where
  "trimString s = rev (dropWhile isStrWhiteSpaceChar (rev (dropWhile isStrWhiteSpaceChar s)))"

definition isDecimalDigit :: "char \<Rightarrow> bool" where
  "isDecimalDigit c = (c \<in> set ''0123456789'')"

definition lowerHex :: "char \<Rightarrow> char" where
  "lowerHex c =
     (if c = CHR ''A'' then CHR ''a'' else if c = CHR ''B'' then CHR ''b''
      else if c = CHR ''C'' then CHR ''c'' else if c = CHR ''D'' then CHR ''d''
      else if c = CHR ''E'' then CHR ''e'' else if c = CHR ''F'' then CHR ''f'' else c)"

text \<open>The value of a digit: its position in \<open>0123456789abcdef\<close> (16 for any other character).\<close>

definition digitValue :: "char \<Rightarrow> nat" where
  "digitValue c = length (takeWhile (\<lambda>x. x \<noteq> lowerHex c) ''0123456789abcdef'')"

definition digitsValue :: "nat \<Rightarrow> string \<Rightarrow> nat" where
  "digitsValue radix ds = foldl (\<lambda>acc c. radix * acc + digitValue c) 0 ds"

definition isRadixDigits :: "nat \<Rightarrow> string \<Rightarrow> bool" where
  "isRadixDigits radix ds = (ds \<noteq> [] \<and> list_all (\<lambda>c. digitValue c < radix) ds)"

text \<open>\<^verbatim>\<open>NonDecimalIntegerLiteral\<close>: \<^verbatim>\<open>0b\<close>, \<^verbatim>\<open>0o\<close> or \<^verbatim>\<open>0x\<close> and digits of that radix.\<close>

definition NonDecimalIntegerLiteral :: "string \<Rightarrow> nat option" where
  "NonDecimalIntegerLiteral s =
     (case s of
        z # x # ds \<Rightarrow>
          (let radix = (if x = CHR ''b'' \<or> x = CHR ''B'' then 2
                        else if x = CHR ''o'' \<or> x = CHR ''O'' then 8
                        else if x = CHR ''x'' \<or> x = CHR ''X'' then 16 else 0)
           in if z = CHR ''0'' \<and> radix \<noteq> 0 \<and> isRadixDigits radix ds
              then Some (digitsValue radix ds) else None)
      | _ \<Rightarrow> None)"

text \<open>\<^verbatim>\<open>ExponentPart\<close>, optional: the exponent, or \<open>None\<close> when the text is no exponent part.\<close>

definition ExponentPart :: "string \<Rightarrow> int option" where
  "ExponentPart s =
     (case s of
        [] \<Rightarrow> Some 0
      | e # r \<Rightarrow>
          if e = CHR ''e'' \<or> e = CHR ''E'' then
            (case r of
               [] \<Rightarrow> None
             | sg # ds \<Rightarrow>
                 if sg = CHR ''-'' then
                   (if isRadixDigits 10 ds then Some (- int (digitsValue 10 ds)) else None)
                 else if sg = CHR ''+'' then
                   (if isRadixDigits 10 ds then Some (int (digitsValue 10 ds)) else None)
                 else (if isRadixDigits 10 r then Some (int (digitsValue 10 r)) else None))
          else None)"

definition scale10 :: "rat \<Rightarrow> int \<Rightarrow> rat" where
  "scale10 x e = (if 0 \<le> e then x * 10 ^ nat e else x / 10 ^ nat (- e))"

text \<open>\<^verbatim>\<open>StrUnsignedDecimalLiteral\<close>: \<^verbatim>\<open>Infinity\<close>, or digits with an optional fraction and exponent.\<close>

definition StrUnsignedDecimalLiteral :: "string \<Rightarrow> jsnum" where
  "StrUnsignedDecimalLiteral s =
     (if s = ''Infinity'' then PosInf
      else
        let ip = takeWhile isDecimalDigit s;
            r1 = dropWhile isDecimalDigit s;
            dot = (r1 \<noteq> [] \<and> hd r1 = CHR ''.'');
            fp = (if dot then takeWhile isDecimalDigit (tl r1) else []);
            r2 = (if dot then dropWhile isDecimalDigit (tl r1) else r1)
        in if ip = [] \<and> fp = [] then NaN
           else (case ExponentPart r2 of
                   None \<Rightarrow> NaN
                 | Some e \<Rightarrow>
                     Num (scale10 (of_nat (digitsValue 10 (ip @ fp))) (e - int (length fp)))))"

definition negate :: "jsnum \<Rightarrow> jsnum" where
  "negate x = (case x of NaN \<Rightarrow> NaN | PosInf \<Rightarrow> NegInf | NegInf \<Rightarrow> PosInf | Num r \<Rightarrow> Num (- r))"

definition StrDecimalLiteral :: "string \<Rightarrow> jsnum" where
  "StrDecimalLiteral s =
     (case s of
        [] \<Rightarrow> NaN
      | c # r \<Rightarrow>
          if c = CHR ''+'' then StrUnsignedDecimalLiteral r
          else if c = CHR ''-'' then negate (StrUnsignedDecimalLiteral r)
          else StrUnsignedDecimalLiteral s)"

text \<open>\<^verbatim>\<open>Number(s)\<close> on a string: white space is trimmed, the empty string is 0.\<close>

definition StringToNumber :: "string \<Rightarrow> jsnum" where
  "StringToNumber s =
     (let t = trimString s
      in if t = [] then Num 0
         else (case NonDecimalIntegerLiteral t of
                 Some v \<Rightarrow> Num (of_nat v)
               | None \<Rightarrow> StrDecimalLiteral t))"

text \<open>\<^verbatim>\<open>x - 1\<close> on a Number.\<close>

definition minusOne :: "jsnum \<Rightarrow> jsnum" where
  "minusOne x = (case x of Num r \<Rightarrow> Num (r - 1) | other \<Rightarrow> other)"

text \<open>\<^verbatim>\<open>ToIntegerOrInfinity\<close> on a finite value: truncation towards zero.\<close>

definition ToIntegerOrInfinity :: "rat \<Rightarrow> int" where
  "ToIntegerOrInfinity r = (if 0 \<le> r then \<lfloor>r\<rfloor> else \<lceil>r\<rceil>)"

text \<open>\<^verbatim>\<open>String(n)\<close> for an integral Number below \<open>10^21\<close> in magnitude: its decimal digits.\<close>

fun decimalDigits :: "nat \<Rightarrow> string" where
  "decimalDigits n =
     (if n < 10 then [''0123456789'' ! n]
      else decimalDigits (n div 10) @ [''0123456789'' ! (n mod 10)])"

declare decimalDigits.simps [simp del]

definition NumberToString :: "number \<Rightarrow> string" where
  "NumberToString x =
     (case x of
        None \<Rightarrow> ''NaN''
      | Some n \<Rightarrow> if n < 0 then CHR ''-'' # decimalDigits (nat (- n)) else decimalDigits (nat n))"

text \<open>\<^verbatim>\<open>s.padStart(n, "0")\<close>.\<close>

definition padStart0 :: "nat \<Rightarrow> string \<Rightarrow> string" where
  "padStart0 n s = replicate (n - length s) CHR ''0'' @ s"

text \<open>\<^verbatim>\<open>s.split("-")\<close>: the pieces between the separators (at least one piece).\<close>

fun splitDash :: "string \<Rightarrow> string list" where
  "splitDash [] = [[]]"
| "splitDash (c # cs) =
     (if c = CHR ''-'' then [] # splitDash cs
      else (case splitDash cs of p # ps \<Rightarrow> (c # p) # ps | [] \<Rightarrow> [[c]]))"

subsection \<open>The calendar of ECMAScript dates\<close>

text \<open>
  Days are numbered from 1 January 1970 (day 0) in the proleptic Gregorian calendar.
  \<open>DayFromYear\<close>, \<open>InLeapYear\<close> and the month table are those of the language
  definition; \<open>YearFromDay\<close> is the largest year whose first day is not after the day
  (lemma \<open>YearFromDay_bounds\<close> below), found from an estimate that is off by at most one.
\<close>

definition msPerDay :: int where
  "msPerDay = 1000 * 60 * 60 * 24"

definition DayFromYear :: "int \<Rightarrow> int" where
  "DayFromYear y =
     365 * (y - 1970) + (y - 1969) div 4 - (y - 1901) div 100 + (y - 1601) div 400"

definition InLeapYear :: "int \<Rightarrow> int" where
  "InLeapYear y =
     (if y mod 4 \<noteq> 0 then 0 else if y mod 100 \<noteq> 0 then 1 else if y mod 400 \<noteq> 0 then 0 else 1)"

definition YearFromDay :: "int \<Rightarrow> int" where
  "YearFromDay n =
     (let e = 1970 + (400 * n) div 146097
      in if DayFromYear (e + 1) \<le> n then e + 1
         else if DayFromYear e \<le> n then e else e - 1)"

text \<open>The day within the year on which month \<open>m\<close> (0 to 11) starts; \<open>l\<close> is 1 in a leap year.\<close>

definition monthStart :: "int \<Rightarrow> int \<Rightarrow> int" where
  "monthStart m l =
     (if m \<le> 0 then 0 else if m = 1 then 31 else if m = 2 then 59 + l
      else if m = 3 then 90 + l else if m = 4 then 120 + l else if m = 5 then 151 + l
      else if m = 6 then 181 + l else if m = 7 then 212 + l else if m = 8 then 243 + l
      else if m = 9 then 273 + l else if m = 10 then 304 + l else 334 + l)"

definition DayWithinYear :: "int \<Rightarrow> int" where
  "DayWithinYear n = n - DayFromYear (YearFromDay n)"

definition MonthFromDay :: "int \<Rightarrow> int" where
  "MonthFromDay n =
     (let d = DayWithinYear n; l = InLeapYear (YearFromDay n)
      in if d < 31 then 0 else if d < 59 + l then 1 else if d < 90 + l then 2
         else if d < 120 + l then 3 else if d < 151 + l then 4 else if d < 181 + l then 5
         else if d < 212 + l then 6 else if d < 243 + l then 7 else if d < 273 + l then 8
         else if d < 304 + l then 9 else if d < 334 + l then 10 else 11)"

definition DateFromDay :: "int \<Rightarrow> int" where
  "DateFromDay n =
     DayWithinYear n - monthStart (MonthFromDay n) (InLeapYear (YearFromDay n)) + 1"

text \<open>\<^verbatim>\<open>MakeDay(year, month, date)\<close>: months outside 0..11 carry into the year, dates
  outside the month carry into the neighbouring months.\<close>

definition MakeDay :: "int \<Rightarrow> int \<Rightarrow> int \<Rightarrow> int" where
  "MakeDay y m dt =
     (let ym = y + m div 12; mn = m mod 12
      in DayFromYear ym + monthStart mn (InLeapYear ym) + dt - 1)"

subsection \<open>Date objects and the host's time zone\<close>

text \<open>
  Every \<^verbatim>\<open>Date\<close> the program builds is at local midnight: it comes from
  \<^verbatim>\<open>new Date(y, m, d)\<close> or is reset by \<^verbatim>\<open>setHours(0, 0, 0, 0)\<close>. Such a date is the
  number of its local calendar day, or is invalid (time value \<^verbatim>\<open>NaN\<close>).

  The host's time zone is a parameter: \<open>tz n\<close> is the offset of local time from UTC, in
  milliseconds, in force at local midnight of day \<open>n\<close>. The time value
  (\<^verbatim>\<open>getTime()\<close>) of local midnight of day \<open>n\<close> is \<open>msPerDay * n - tz n\<close>, so a
  daylight-saving change between two days shows in the difference of their time values.
\<close>

datatype Date = InvalidDate | LocalDay int

type_synonym timezone = "int \<Rightarrow> int"

definition timeValue :: "timezone \<Rightarrow> int \<Rightarrow> int" where
  "timeValue tz n = msPerDay * n - tz n"

text \<open>\<^verbatim>\<open>TimeClip\<close>: a time value beyond 8.64e15 ms makes the date invalid.\<close>

definition makeDate :: "timezone \<Rightarrow> int \<Rightarrow> Date" where
  "makeDate tz n = (if \<bar>timeValue tz n\<bar> \<le> 8640000000000000 then LocalDay n else InvalidDate)"

text \<open>\<^verbatim>\<open>MakeFullYear\<close>: a year from 0 to 99 means 1900 + year.\<close>

definition MakeFullYear :: "int \<Rightarrow> int" where
  "MakeFullYear y = (if 0 \<le> y \<and> y \<le> 99 then 1900 + y else y)"

text \<open>\<^verbatim>\<open>new Date(y, m, d)\<close>: invalid unless the three Numbers are finite.\<close>

definition newDate :: "timezone \<Rightarrow> jsnum \<Rightarrow> jsnum \<Rightarrow> jsnum \<Rightarrow> Date" where
  "newDate tz y m d =
     (case (y, m, d) of
        (Num yr, Num mr, Num dr) \<Rightarrow>
          makeDate tz (MakeDay (MakeFullYear (ToIntegerOrInfinity yr))
                         (ToIntegerOrInfinity mr) (ToIntegerOrInfinity dr))
      | _ \<Rightarrow> InvalidDate)"

definition getTime :: "timezone \<Rightarrow> Date \<Rightarrow> number" where
  "getTime tz d = (case d of InvalidDate \<Rightarrow> None | LocalDay n \<Rightarrow> Some (timeValue tz n))"

definition getFullYear :: "Date \<Rightarrow> number" where
  "getFullYear d = (case d of InvalidDate \<Rightarrow> None | LocalDay n \<Rightarrow> Some (YearFromDay n))"

definition getMonth :: "Date \<Rightarrow> number" where
  "getMonth d = (case d of InvalidDate \<Rightarrow> None | LocalDay n \<Rightarrow> Some (MonthFromDay n))"

definition getDate :: "Date \<Rightarrow> number" where
  "getDate d = (case d of InvalidDate \<Rightarrow> None | LocalDay n \<Rightarrow> Some (DateFromDay n))"

text \<open>\<^verbatim>\<open>d.setDate(v)\<close> for an integral \<open>v\<close>, as a function of the date.\<close>

definition setDate :: "timezone \<Rightarrow> Date \<Rightarrow> number \<Rightarrow> Date" where
  "setDate tz d v =
     (case (d, v) of
        (LocalDay n, Some dt) \<Rightarrow> makeDate tz (MakeDay (YearFromDay n) (MonthFromDay n) dt)
      | _ \<Rightarrow> InvalidDate)"

text \<open>\<^verbatim>\<open>a > b\<close> on two dates compares their time values; with \<^verbatim>\<open>NaN\<close> it is false.\<close>

definition dateGreater :: "timezone \<Rightarrow> Date \<Rightarrow> Date \<Rightarrow> bool" where
  "dateGreater tz a b =
     (case (getTime tz a, getTime tz b) of (Some x, Some y) \<Rightarrow> x > y | _ \<Rightarrow> False)"

text \<open>
  \<^verbatim>\<open>Math.round(x)\<close>: the nearest integer, a tie going up. The program rounds a
  quotient of two integers, which is kept exact here. The double quotient rounds to the
  same integer: the integers are below \<open>2^53\<close>, every half-integer in range is a double,
  and rounding to the nearest double is monotone.
\<close>

definition Math_round :: "rat \<Rightarrow> int" where
  "Math_round x = \<lfloor>x + 1 / 2\<rfloor>"

subsection \<open>The program's data\<close>

text \<open>
  \<^verbatim>\<open>type Status = "done" | "missed" | null\<close>; an activity; and the status table
  \<^verbatim>\<open>Record<string, Record<ISODate, "done" | "missed" | null>>\<close>. An object is the list of
  its properties in insertion order, and \<^verbatim>\<open>{...o, [k]: v}\<close> is \<open>AList.update k v o\<close>: the
  value of an existing key is replaced in place, a new key goes last (JavaScript lists
  keys that are array indices first; nothing below depends on the order). A stored value
  can be an explicit \<^verbatim>\<open>null\<close> (\<open>Some Null\<close> under \<open>entry\<close>), which is not the same object
  as one without the key (\<open>None\<close>). Keys are own properties: the identifiers that
  \<^verbatim>\<open>uid()\<close> makes and the day identifiers are not names of \<^verbatim>\<open>Object.prototype\<close>.
\<close>

type_synonym ISODate = string

datatype Status = Done | Missed | Null

record Activity =
  id' :: string
  name :: string

type_synonym StatusByDate = "(string \<times> (ISODate \<times> Status) list) list"

text \<open>The fields \<^verbatim>\<open>statusByDate\<close> and \<^verbatim>\<open>lastClosedISO\<close>, shared by the result of
  \<^verbatim>\<open>closeMissingDays\<close> (a cursor that is a day) and by the screen's state (a cursor that
  may be \<^verbatim>\<open>null\<close>).\<close>

record 'c Closure =
  statusByDate :: StatusByDate
  lastClosedISO :: 'c

text \<open>The state of the screen (its \<^verbatim>\<open>useState\<close> cells): the persisted state and the
  current day.\<close>

record Screen = "ISODate option Closure" +
  activities :: "Activity list"
  todayISO :: ISODate

text \<open>The stored property of an activity and a day, if there is one.\<close>

definition entry :: "StatusByDate \<Rightarrow> string \<Rightarrow> ISODate \<Rightarrow> Status option" where
  "entry sbd activityId isoDay =
     (case map_of sbd activityId of None \<Rightarrow> None | Some row \<Rightarrow> map_of row isoDay)"

text \<open>\<^verbatim>\<open>sbd?.[activityId]?.[iso] ?? null\<close>.\<close>

definition getStatus :: "StatusByDate \<Rightarrow> string \<Rightarrow> ISODate \<Rightarrow> Status" where
  "getStatus sbd activityId isoDay =
     (case map_of sbd activityId of
        None \<Rightarrow> Null
      | Some row \<Rightarrow> (case map_of row isoDay of None \<Rightarrow> Null | Some v \<Rightarrow> v))"

text \<open>\<^verbatim>\<open>{...sbd, [activityId]: {...(sbd[activityId] || {}), [iso]: v}}\<close>.\<close>

definition setStatus :: "StatusByDate \<Rightarrow> string \<Rightarrow> ISODate \<Rightarrow> Status \<Rightarrow> StatusByDate" where
  "setStatus sbd activityId isoDay v =
     AList.update activityId
       (AList.update isoDay v (case map_of sbd activityId of None \<Rightarrow> [] | Some row \<Rightarrow> row)) sbd"

subsection \<open>Date utilities\<close>

definition pad2 :: "number \<Rightarrow> string" where
  "pad2 n = padStart0 2 (NumberToString n)"

definition plus :: "number \<Rightarrow> int \<Rightarrow> number" where
  "plus x k = (case x of None \<Rightarrow> None | Some v \<Rightarrow> Some (v + k))"

definition toISODate :: "Date \<Rightarrow> ISODate" where
  "toISODate d =
     NumberToString (getFullYear d) @ ''-'' @ pad2 (plus (getMonth d) 1) @ ''-'' @ pad2 (getDate d)"

text \<open>\<^verbatim>\<open>const [y, m, d] = iso.split("-").map(Number)\<close>: with fewer than three pieces a
  component is \<^verbatim>\<open>undefined\<close> and the date is invalid. \<^verbatim>\<open>setHours(0, 0, 0, 0)\<close> leaves a
  local midnight as it is.\<close>

definition parseISO :: "timezone \<Rightarrow> ISODate \<Rightarrow> Date" where
  "parseISO tz isoDay =
     (case map StringToNumber (splitDash isoDay) of
        y # m # d # rest \<Rightarrow> newDate tz y (minusOne m) d
      | _ \<Rightarrow> InvalidDate)"

definition addDays :: "timezone \<Rightarrow> Date \<Rightarrow> int \<Rightarrow> Date" where
  "addDays tz date days = setDate tz date (plus (getDate date) days)"

definition addDaysISO :: "timezone \<Rightarrow> ISODate \<Rightarrow> int \<Rightarrow> ISODate" where
  "addDaysISO tz isoDay days = toISODate (addDays tz (parseISO tz isoDay) days)"

definition diffDays :: "timezone \<Rightarrow> ISODate \<Rightarrow> ISODate \<Rightarrow> number" where
  "diffDays tz fromISO toISO =
     (case (getTime tz (parseISO tz fromISO), getTime tz (parseISO tz toISO)) of
        (Some a, Some b) \<Rightarrow> Some (Math_round (of_int (b - a) / of_int (1000 * 60 * 60 * 24)))
      | _ \<Rightarrow> None)"

definition daysInMonth :: "timezone \<Rightarrow> int \<Rightarrow> int \<Rightarrow> number" where
  "daysInMonth tz year monthIndex0 =
     getDate (newDate tz (Num (of_int year)) (Num (of_int (monthIndex0 + 1))) (Num 0))"

subsection \<open>Automatic closure\<close>

text \<open>The inner loop of \<^verbatim>\<open>closeMissingDays\<close>: one day, every activity in turn.\<close>

definition closeDay :: "Activity list \<Rightarrow> ISODate \<Rightarrow> StatusByDate \<Rightarrow> StatusByDate" where
  "closeDay acts dayISO sbd =
     foldl (\<lambda>next a.
              if getStatus next (id' a) dayISO = Null
              then setStatus next (id' a) dayISO Missed else next)
       sbd acts"

text \<open>The outer loop, from counter \<open>i\<close>: \<^verbatim>\<open>for (let i = 1; i <= days; i++)\<close> with its
  \<^verbatim>\<open>break\<close> at today.\<close>

function closeDaysFrom ::
  "timezone \<Rightarrow> Activity list \<Rightarrow> ISODate \<Rightarrow> ISODate \<Rightarrow> int \<Rightarrow> int \<Rightarrow> StatusByDate \<Rightarrow> StatusByDate"
where
  "closeDaysFrom tz acts lastClosed today days i next =
     (if i \<le> days then
        (let dayISO = addDaysISO tz lastClosed i
         in if dayISO = today then next
            else closeDaysFrom tz acts lastClosed today days (i + 1) (closeDay acts dayISO next))
      else next)"
  by pat_completeness auto
termination
  by (relation "measure (\<lambda>(tz, acts, lastClosed, today, days, i, next). nat (days + 1 - i))") auto

declare closeDaysFrom.simps [simp del]

text \<open>\<^verbatim>\<open>!lastClosedISO\<close> holds for \<^verbatim>\<open>null\<close> and for the empty string. When \<^verbatim>\<open>days\<close> is
  \<^verbatim>\<open>NaN\<close>, \<^verbatim>\<open>days <= 0\<close> and \<^verbatim>\<open>i <= days\<close> are both false: the loop body never runs.\<close>

definition closeMissingDays ::
  "timezone \<Rightarrow> Activity list \<Rightarrow> StatusByDate \<Rightarrow> ISODate option \<Rightarrow> ISODate \<Rightarrow> ISODate Closure"
where
  "closeMissingDays tz acts sbd lastClosed today =
     (case lastClosed of
        None \<Rightarrow> \<lparr>statusByDate = sbd, lastClosedISO = today\<rparr>
      | Some lc \<Rightarrow>
          if lc = [] then \<lparr>statusByDate = sbd, lastClosedISO = today\<rparr>
          else
            (case diffDays tz lc today of
               None \<Rightarrow> \<lparr>statusByDate = sbd, lastClosedISO = today\<rparr>
             | Some days \<Rightarrow>
                 if days \<le> 0 then \<lparr>statusByDate = sbd, lastClosedISO = lc\<rparr>
                 else \<lparr>statusByDate = closeDaysFrom tz acts lc today days 1 sbd,
                        lastClosedISO = today\<rparr>))"

subsection \<open>Monthly series\<close>

text \<open>\<^verbatim>\<open>Array.from({ length: n }, (_, i) => f(i))\<close>; a length that is \<^verbatim>\<open>NaN\<close> or negative
  gives the empty array.\<close>

definition arrayFrom :: "number \<Rightarrow> (int \<Rightarrow> 'a) \<Rightarrow> 'a list" where
  "arrayFrom len f = (case len of None \<Rightarrow> [] | Some n \<Rightarrow> map (\<lambda>i. f (int i)) [0..<nat n])"

text \<open>The number of identifiers in \<open>ids\<close> whose stored value for the day is \<^verbatim>\<open>"done"\<close>.\<close>

definition countDone :: "StatusByDate \<Rightarrow> string list \<Rightarrow> ISODate \<Rightarrow> int" where
  "countDone sbd ids isoDay = int (length (filter (\<lambda>i. entry sbd i isoDay = Some Done) ids))"

record Series =
  labels :: "string list"
  data :: "number list"

definition buildMonthlySeries ::
  "timezone \<Rightarrow> int \<Rightarrow> int \<Rightarrow> StatusByDate \<Rightarrow> ISODate \<Rightarrow> Series"
where
  "buildMonthlySeries tz year monthIndex0 sbd today =
     (let totalDays = daysInMonth tz year monthIndex0;
          todayDate = parseISO tz today;
          activityIds = map fst sbd
      in \<lparr>labels = arrayFrom totalDays (\<lambda>i. NumberToString (Some (i + 1))),
          data = arrayFrom totalDays
                   (\<lambda>i. let d = newDate tz (Num (of_int year)) (Num (of_int monthIndex0))
                                   (Num (of_int (i + 1)));
                             isoDay = toISODate d
                         in if dateGreater tz d todayDate then None
                            else Some (countDone sbd activityIds isoDay))\<rparr>)"

text \<open>The earlier copy of the screen (\<^verbatim>\<open>src/app/(tabs)/index.tsx\<close>) passes the activity
  list to the function, which counts over that list.\<close>

definition buildMonthlySeriesOfList ::
  "timezone \<Rightarrow> int \<Rightarrow> int \<Rightarrow> Activity list \<Rightarrow> StatusByDate \<Rightarrow> ISODate \<Rightarrow> Series"
where
  "buildMonthlySeriesOfList tz year monthIndex0 acts sbd today =
     (let totalDays = daysInMonth tz year monthIndex0;
          todayDate = parseISO tz today
      in \<lparr>labels = arrayFrom totalDays (\<lambda>i. NumberToString (Some (i + 1))),
          data = arrayFrom totalDays
                   (\<lambda>i. let d = newDate tz (Num (of_int year)) (Num (of_int monthIndex0))
                                   (Num (of_int (i + 1)));
                             isoDay = toISODate d
                         in if dateGreater tz d todayDate then None
                            else Some (countDone sbd (map id' acts) isoDay))\<rparr>)"

subsection \<open>The screen's state updates\<close>

definition cycleTodayStatus :: "Status \<Rightarrow> Status" where
  "cycleTodayStatus current = (if current = Done then Null else Done)"

definition onPressCell :: "string \<Rightarrow> ISODate \<Rightarrow> Screen \<Rightarrow> Screen" where
  "onPressCell activityId isoDay st =
     (if isoDay \<noteq> todayISO st then st
      else st\<lparr>statusByDate :=
                setStatus (statusByDate st) activityId isoDay
                  (cycleTodayStatus (getStatus (statusByDate st) activityId isoDay))\<rparr>)"

text \<open>\<^verbatim>\<open>addActivity\<close>: the identifier comes from \<^verbatim>\<open>uid()\<close> and the name from the input
  field; the new activity goes first.\<close>

definition addActivity :: "string \<Rightarrow> string \<Rightarrow> Screen \<Rightarrow> Screen" where
  "addActivity uid newName st =
     (let nm = trimString newName
      in if nm = [] then st
         else st\<lparr>activities := \<lparr>id' = uid, name = nm\<rparr> # activities st\<rparr>)"

text \<open>\<^verbatim>\<open>deleteActivity\<close>, once the user has confirmed the alert.\<close>

definition deleteActivity :: "string \<Rightarrow> Screen \<Rightarrow> Screen" where
  "deleteActivity activityId st =
     st\<lparr>activities := filter (\<lambda>a. id' a \<noteq> activityId) (activities st)\<rparr>"

text \<open>The return to the foreground: today is read from the clock and the missing days
  are closed.\<close>

definition onForeground :: "timezone \<Rightarrow> ISODate \<Rightarrow> Screen \<Rightarrow> Screen" where
  "onForeground tz newToday st =
     (let fixed = closeMissingDays tz (activities st) (statusByDate st) (lastClosedISO st) newToday
      in st\<lparr>todayISO := newToday, statusByDate := statusByDate fixed,
             lastClosedISO := Some (lastClosedISO fixed)\<rparr>)"

subsection \<open>Day identifiers, time zones and outcomes\<close>

text \<open>
  A day identifier \<^verbatim>\<open>YYYY-MM-DD\<close>: the text that \<^verbatim>\<open>toISODate\<close> writes for a day whose year
  has four digits. The program obtains every day it stores from \<^verbatim>\<open>toISODate\<close>.
\<close>

definition isDayId :: "timezone \<Rightarrow> ISODate \<Rightarrow> bool" where
  "isDayId tz s =
     (case parseISO tz s of
        InvalidDate \<Rightarrow> False
      | LocalDay n \<Rightarrow>
          1000 \<le> YearFromDay n \<and> YearFromDay n \<le> 9999 \<and> toISODate (LocalDay n) = s)"

text \<open>
  A time zone with daylight saving: every offset is within 14 hours of UTC and two
  offsets of the zone differ by less than 12 hours (a daylight-saving change is an hour
  or two).
\<close>

definition dstZone :: "timezone \<Rightarrow> bool" where
  "dstZone tz = (\<forall>m n. \<bar>tz n\<bar> \<le> 50400000 \<and> \<bar>tz m - tz n\<bar> < 43200000)"

text \<open>
  The offsets of Europe/Madrid at local midnight around 2024: two hours from 1 April
  (day 19814) to 27 October 2024 (day 20023), after the change to summer time in the
  night of 31 March, and one hour otherwise.
\<close>

definition madrid :: timezone where
  "madrid n = (if 19814 \<le> n \<and> n \<le> 20023 then 7200000 else 3600000)"

text \<open>Day identifiers order by calendar date.\<close>

definition dayLe :: "timezone \<Rightarrow> ISODate \<Rightarrow> ISODate \<Rightarrow> bool" where
  "dayLe tz a b =
     (case (parseISO tz a, parseISO tz b) of (LocalDay m, LocalDay n) \<Rightarrow> m \<le> n | _ \<Rightarrow> False)"

text \<open>
  The outcome of a call as a value. \<^verbatim>\<open>parseISO\<close> has no \<^verbatim>\<open>throw\<close>, and on a string
  neither \<^verbatim>\<open>split\<close>, \<^verbatim>\<open>Number\<close>, the \<^verbatim>\<open>Date\<close> constructor nor \<^verbatim>\<open>setHours\<close> throws: the call
  always returns its date.
\<close>

datatype error = MalformedDateError

definition parseISO_outcome :: "timezone \<Rightarrow> ISODate \<Rightarrow> error + Date" where
  "parseISO_outcome tz s = Inr (parseISO tz s)"

text \<open>The number of days of month \<open>m\<close> (0 to 11); \<open>l\<close> is 1 in a leap year.\<close>

definition monthLength :: "int \<Rightarrow> int \<Rightarrow> int" where
  "monthLength m l = (if m = 11 then 31 else monthStart (m + 1) l - monthStart m l)"

text \<open>
  The specification's reading of a well-formed day identifier, written from its words
  (\<^verbatim>\<open>YYYY-MM-DD\<close>, each component numeric and in range): ten characters, digits but for
  the two separators, a month from 1 to 12 and a day from 1 to the length of the month.
\<close>

definition specWellFormed :: "ISODate \<Rightarrow> bool" where
  "specWellFormed s =
     (length s = 10 \<and> s ! 4 = CHR ''-'' \<and> s ! 7 = CHR ''-''
      \<and> list_all isDecimalDigit (take 4 s @ take 2 (drop 5 s) @ drop 8 s)
      \<and> (let y = int (digitsValue 10 (take 4 s));
              m = int (digitsValue 10 (take 2 (drop 5 s)));
              d = int (digitsValue 10 (drop 8 s))
          in 1 \<le> m \<and> m \<le> 12 \<and> 1 \<le> d \<and> d \<le> monthLength (m - 1) (InLeapYear y)))"

text \<open>The year, the month and the day of the month that the specification reads off a
  well-formed identifier.\<close>

definition specYear :: "ISODate \<Rightarrow> int" where
  "specYear s = int (digitsValue 10 (take 4 s))"

definition specMonth :: "ISODate \<Rightarrow> int" where
  "specMonth s = int (digitsValue 10 (take 2 (drop 5 s)))"

definition specDate :: "ISODate \<Rightarrow> int" where
  "specDate s = int (digitsValue 10 (drop 8 s))"

text \<open>The invariant of the specification's data model: no stored value is \<^verbatim>\<open>null\<close>.\<close>

definition onlyMarks :: "StatusByDate \<Rightarrow> bool" where
  "onlyMarks sbd = (\<forall>a d. entry sbd a d \<noteq> Some Null)"

section \<open>The calendar\<close>

lemma div_lower: "0 < k \<Longrightarrow> k * (x div k) \<le> (x::int)"
  by (metis div_mult_mod_eq add.commute le_add_same_cancel2 mult.commute pos_mod_sign add_increasing2 order_refl)

lemma div_upper: "0 < k \<Longrightarrow> (x::int) < k * (x div k) + k"
proof -
  assume k: "0 < k"
  have "x = k * (x div k) + x mod k" by simp
  moreover have "x mod k < k" using k by simp
  ultimately show ?thesis by linarith
qed

lemma DayFromYear_split:
  obtains a b c where
    "DayFromYear y = 365 * y - 719050 + a - b + c"
    "4 * a \<le> y - 1969" "y - 1969 < 4 * a + 4"
    "100 * b \<le> y - 1901" "y - 1901 < 100 * b + 100"
    "400 * c \<le> y - 1601" "y - 1601 < 400 * c + 400"
proof -
  have "DayFromYear y = 365 * y - 719050 + (y - 1969) div 4 - (y - 1901) div 100 + (y - 1601) div 400"
    by (simp add: DayFromYear_def)
  moreover have "4 * ((y - 1969) div 4) \<le> y - 1969" by (rule div_lower) simp
  moreover have "(y - 1969) < 4 * ((y - 1969) div 4) + 4" by (rule div_upper) simp
  moreover have "100 * ((y - 1901) div 100) \<le> y - 1901" by (rule div_lower) simp
  moreover have "y - 1901 < 100 * ((y - 1901) div 100) + 100" by (rule div_upper) simp
  moreover have "400 * ((y - 1601) div 400) \<le> y - 1601" by (rule div_lower) simp
  moreover have "(y - 1601) < 400 * ((y - 1601) div 400) + 400" by (rule div_upper) simp
  ultimately show ?thesis using that by blast
qed

lemma DayFromYear_lower: "146097 * y - 287811697 < 400 * DayFromYear y"
proof -
  obtain a b c where
    "DayFromYear y = 365 * y - 719050 + a - b + c"
    "4 * a \<le> y - 1969" "y - 1969 < 4 * a + 4"
    "100 * b \<le> y - 1901" "y - 1901 < 100 * b + 100"
    "400 * c \<le> y - 1601" "y - 1601 < 400 * c + 400"
    by (rule DayFromYear_split)
  then show ?thesis by linarith
qed

lemma DayFromYear_upper: "400 * DayFromYear y < 146097 * y - 287810497"
proof -
  obtain a b c where
    "DayFromYear y = 365 * y - 719050 + a - b + c"
    "4 * a \<le> y - 1969" "y - 1969 < 4 * a + 4"
    "100 * b \<le> y - 1901" "y - 1901 < 100 * b + 100"
    "400 * c \<le> y - 1601" "y - 1601 < 400 * c + 400"
    by (rule DayFromYear_split)
  then show ?thesis by linarith
qed

lemma DayFromYear_strict: "y < z \<Longrightarrow> DayFromYear y < DayFromYear z"
proof -
  assume yz: "y < z"
  obtain a b c where y:
    "DayFromYear y = 365 * y - 719050 + a - b + c"
    "4 * a \<le> y - 1969" "y - 1969 < 4 * a + 4"
    "100 * b \<le> y - 1901" "y - 1901 < 100 * b + 100"
    "400 * c \<le> y - 1601" "y - 1601 < 400 * c + 400"
    by (rule DayFromYear_split)
  obtain a' b' c' where z:
    "DayFromYear z = 365 * z - 719050 + a' - b' + c'"
    "4 * a' \<le> z - 1969" "z - 1969 < 4 * a' + 4"
    "100 * b' \<le> z - 1901" "z - 1901 < 100 * b' + 100"
    "400 * c' \<le> z - 1601" "z - 1601 < 400 * c' + 400"
    by (rule DayFromYear_split)
  have "a \<le> a'" using y(2) z(3) yz by linarith
  moreover have "c \<le> c'" using y(6) z(7) yz by linarith
  moreover have "100 * b' - 100 * b < (z - y) + 100" using y(5) z(4) by linarith
  ultimately show ?thesis using y(1) z(1) yz by linarith
qed

lemma DayFromYear_mono: "y \<le> z \<Longrightarrow> DayFromYear y \<le> DayFromYear z"
  using DayFromYear_strict[of y z] by (cases "y = z") auto

lemma YearFromDay_bounds:
  "DayFromYear (YearFromDay n) \<le> n \<and> n < DayFromYear (YearFromDay n + 1)"
proof -
  define e where "e = 1970 + (400 * n) div 146097"
  have e1: "146097 * e - 287811090 \<le> 400 * n" unfolding e_def using div_lower[of 146097 "400 * n"] by simp
  have e2: "400 * n < 146097 * e - 287664993" unfolding e_def using div_upper[of 146097 "400 * n"] by simp
  have d1: "146097 * (e - 1) = 146097 * e - 146097" by simp
  have d2: "146097 * (e + 2) = 146097 * e + 292194" by simp
  have lo: "DayFromYear (e - 1) \<le> n" using DayFromYear_upper[of "e - 1"] e1 d1 by linarith
  have hi: "n < DayFromYear (e + 2)" using DayFromYear_lower[of "e + 2"] e2 d2 by linarith
  have Y: "YearFromDay n = (if DayFromYear (e + 1) \<le> n then e + 1
         else if DayFromYear e \<le> n then e else e - 1)"
    unfolding YearFromDay_def e_def Let_def by simp
  show ?thesis
  proof (cases "DayFromYear (e + 1) \<le> n")
    case True
    then show ?thesis using Y hi by (simp add: add.commute add.left_commute)
  next
    case False
    show ?thesis
    proof (cases "DayFromYear e \<le> n")
      case True
      then show ?thesis using Y False by simp
    next
      case F2: False
      then show ?thesis using Y False lo by simp
    qed
  qed
qed

lemma YearFromDay_unique:
  assumes "DayFromYear y \<le> n" "n < DayFromYear (y + 1)"
  shows "YearFromDay n = y"
proof (rule ccontr)
  assume ne: "YearFromDay n \<noteq> y"
  let ?Y = "YearFromDay n"
  have b: "DayFromYear ?Y \<le> n" "n < DayFromYear (?Y + 1)" using YearFromDay_bounds by auto
  show False
  proof (cases "?Y < y")
    case True
    then have "DayFromYear (?Y + 1) \<le> DayFromYear y" by (intro DayFromYear_mono) simp
    then show False using b assms by linarith
  next
    case False
    with ne have "y + 1 \<le> ?Y" by simp
    then have "DayFromYear (y + 1) \<le> DayFromYear ?Y" by (rule DayFromYear_mono)
    then show False using b assms by linarith
  qed
qed

lemma YearFromDay_mono: "m \<le> n \<Longrightarrow> YearFromDay m \<le> YearFromDay n"
proof (rule ccontr)
  assume mn: "m \<le> n" and "\<not> YearFromDay m \<le> YearFromDay n"
  then have "YearFromDay n + 1 \<le> YearFromDay m" by simp
  then have "DayFromYear (YearFromDay n + 1) \<le> DayFromYear (YearFromDay m)" by (rule DayFromYear_mono)
  then show False using YearFromDay_bounds[of m] YearFromDay_bounds[of n] mn by linarith
qed

lemma div_before_multiple:
  fixes y k u :: int
  assumes "0 < k"
  shows "(y - (k * u + 1)) div k = y div k - u - (if y mod k = 0 then 1 else 0)"
proof -
  define q r where "q = y div k" and "r = y mod k"
  have y: "y = k * q + r" by (simp add: q_def r_def)
  have r: "0 \<le> r" "r < k" using assms by (simp_all add: r_def)
  show ?thesis
  proof (cases "r = 0")
    case True
    have "y - (k * u + 1) = k * (q - u - 1) + (k - 1)" by (simp add: y True algebra_simps)
    then have "(y - (k * u + 1)) div k = q - u - 1"
      by (rule int_div_pos_eq) (use assms in simp_all)
    then show ?thesis using True by (simp add: q_def r_def)
  next
    case False
    have "y - (k * u + 1) = k * (q - u) + (r - 1)" by (simp add: y algebra_simps)
    then have "(y - (k * u + 1)) div k = q - u"
      by (rule int_div_pos_eq) (use r False in simp_all)
    then show ?thesis using False by (simp add: q_def r_def)
  qed
qed

lemma div_at_multiple:
  fixes y k u :: int
  assumes "0 < k"
  shows "(y - k * u) div k = y div k - u"
proof -
  have "y - k * u = k * (y div k - u) + y mod k" by (simp add: algebra_simps)
  then show ?thesis by (rule int_div_pos_eq) (use assms in simp_all)
qed

lemma mod_100_4: "(y::int) mod 100 = 0 \<Longrightarrow> y mod 4 = 0"
  using mod_mod_cancel[of 4 100 y] by simp

lemma mod_400_100: "(y::int) mod 400 = 0 \<Longrightarrow> y mod 100 = 0"
  using mod_mod_cancel[of 100 400 y] by simp

text \<open>A year has 366 days when it is a leap year and 365 otherwise.\<close>

lemma DayFromYear_step: "DayFromYear (y + 1) = DayFromYear y + 365 + InLeapYear y"
proof -
  have a: "(y - 1969) div 4 = y div 4 - 492 - (if y mod 4 = 0 then 1 else 0)"
    using div_before_multiple[of 4 y 492] by simp
  have b: "(y - 1901) div 100 = y div 100 - 19 - (if y mod 100 = 0 then 1 else 0)"
    using div_before_multiple[of 100 y 19] by simp
  have c: "(y - 1601) div 400 = y div 400 - 4 - (if y mod 400 = 0 then 1 else 0)"
    using div_before_multiple[of 400 y 4] by simp
  have a': "(y - 1968) div 4 = y div 4 - 492" using div_at_multiple[of 4 y 492] by simp
  have b': "(y - 1900) div 100 = y div 100 - 19" using div_at_multiple[of 100 y 19] by simp
  have c': "(y - 1600) div 400 = y div 400 - 4" using div_at_multiple[of 400 y 4] by simp
  have D: "DayFromYear y = 365 * y - 719050 + (y - 1969) div 4 - (y - 1901) div 100 + (y - 1601) div 400"
    by (simp add: DayFromYear_def)
  have D': "DayFromYear (y + 1) = 365 * y - 718685 + (y - 1968) div 4 - (y - 1900) div 100 + (y - 1600) div 400"
    by (simp add: DayFromYear_def)
  show ?thesis
    unfolding D D' a b c a' b' c' InLeapYear_def
    using mod_100_4[of y] mod_400_100[of y] by auto
qed

lemma DayWithinYear_range:
  "0 \<le> DayWithinYear n \<and> DayWithinYear n < 365 + InLeapYear (YearFromDay n)"
  using YearFromDay_bounds[of n] DayFromYear_step[of "YearFromDay n"]
  by (simp add: DayWithinYear_def)

lemma InLeapYear_range: "0 \<le> InLeapYear y \<and> InLeapYear y \<le> 1"
  by (simp add: InLeapYear_def)

lemma MonthFromDay_range: "0 \<le> MonthFromDay n \<and> MonthFromDay n \<le> 11"
  by (simp add: MonthFromDay_def Let_def)

lemma DateFromDay_range: "1 \<le> DateFromDay n \<and> DateFromDay n \<le> 31"
  using DayWithinYear_range[of n] InLeapYear_range[of "YearFromDay n"]
  by (auto simp add: DateFromDay_def MonthFromDay_def monthStart_def Let_def)

lemma MakeDay_fields:
  "MakeDay (YearFromDay n) (MonthFromDay n) dt = n - DateFromDay n + dt"
proof -
  have m: "0 \<le> MonthFromDay n" "MonthFromDay n < 12" using MonthFromDay_range[of n] by auto
  then have "MonthFromDay n div 12 = 0" "MonthFromDay n mod 12 = MonthFromDay n" by auto
  then show ?thesis
    by (simp add: MakeDay_def DateFromDay_def DayWithinYear_def Let_def)
qed

lemma MakeDay_roundtrip: "MakeDay (YearFromDay n) (MonthFromDay n) (DateFromDay n) = n"
  by (simp add: MakeDay_fields)

lemma month_cases:
  assumes "0 \<le> m" "m \<le> (11::int)"
  obtains "m = 0" | "m = 1" | "m = 2" | "m = 3" | "m = 4" | "m = 5" | "m = 6" | "m = 7"
    | "m = 8" | "m = 9" | "m = 10" | "m = 11"
  using assms by (atomize_elim) presburger

lemma monthLength_range:
  assumes "0 \<le> m" "m \<le> 11" "0 \<le> l" "l \<le> 1"
  shows "28 \<le> monthLength m l \<and> monthLength m l \<le> 31"
  using assms(1,2)
  by (cases m rule: month_cases) (use assms(3,4) in \<open>simp_all add: monthLength_def monthStart_def\<close>)

lemma monthStart_end:
  assumes "0 \<le> m" "m \<le> 11" "0 \<le> l" "l \<le> 1"
  shows "0 \<le> monthStart m l \<and> monthStart m l + monthLength m l \<le> 365 + l"
  using assms(1,2)
  by (cases m rule: month_cases) (use assms(3,4) in \<open>simp_all add: monthLength_def monthStart_def\<close>)

lemma month_of_day:
  assumes "0 \<le> m" "m \<le> 11" "0 \<le> l" "l \<le> 1" "1 \<le> d" "d \<le> monthLength m l"
    and "w = monthStart m l + d - 1"
  shows "(if w < 31 then 0 else if w < 59 + l then 1 else if w < 90 + l then 2
          else if w < 120 + l then 3 else if w < 151 + l then 4 else if w < 181 + l then 5
          else if w < 212 + l then 6 else if w < 243 + l then 7 else if w < 273 + l then 8
          else if w < 304 + l then 9 else if w < 334 + l then 10 else 11) = m"
  using assms(1,2)
  by (cases m rule: month_cases)
     (use assms(3-7) in \<open>simp_all add: monthLength_def monthStart_def\<close>)

text \<open>The calendar fields of the day that \<open>MakeDay\<close> builds from a date of the calendar.\<close>

lemma fields_MakeDay:
  assumes "0 \<le> m" "m \<le> 11" "1 \<le> d" "d \<le> monthLength m (InLeapYear y)"
  shows "YearFromDay (MakeDay y m d) = y"
    and "MonthFromDay (MakeDay y m d) = m"
    and "DateFromDay (MakeDay y m d) = d"
proof -
  let ?l = "InLeapYear y" and ?n = "MakeDay y m d"
  have l: "0 \<le> ?l" "?l \<le> 1" using InLeapYear_range[of y] by auto
  have n: "?n = DayFromYear y + monthStart m ?l + d - 1"
    using assms(1,2) by (simp add: MakeDay_def Let_def)
  have se: "0 \<le> monthStart m ?l" "monthStart m ?l + monthLength m ?l \<le> 365 + ?l"
    using monthStart_end[OF assms(1,2) l] by auto
  have "DayFromYear y \<le> ?n" "?n < DayFromYear (y + 1)"
    using n se assms(3,4) DayFromYear_step[of y] by linarith+
  then show Y: "YearFromDay ?n = y" by (rule YearFromDay_unique)
  have w: "DayWithinYear ?n = monthStart m ?l + d - 1"
    unfolding DayWithinYear_def Y by (simp add: n)
  show M: "MonthFromDay ?n = m"
    unfolding MonthFromDay_def Let_def Y w
    using assms(1,2) l assms(3,4) by (rule month_of_day) simp
  show "DateFromDay ?n = d"
    by (simp add: DateFromDay_def Y M w)
qed

lemma MakeDay_next_month:
  assumes "0 \<le> m" "m \<le> 11"
  shows "MakeDay y (m + 1) 0 = MakeDay y m (monthLength m (InLeapYear y))"
proof (cases "m = 11")
  case True
  then show ?thesis
    using DayFromYear_step[of y]
    by (simp add: MakeDay_def monthLength_def monthStart_def Let_def)
next
  case False
  then have "(m + 1) div 12 = 0" "(m + 1) mod 12 = m + 1" "m div 12 = 0" "m mod 12 = m"
    using assms by auto
  then show ?thesis using False by (simp add: MakeDay_def monthLength_def Let_def)
qed

lemma DayFromYear_abs:
  assumes "\<bar>y\<bar> \<le> 200001"
  shows "\<bar>DayFromYear y\<bar> \<le> 74000000"
  using DayFromYear_lower[of y] DayFromYear_upper[of y] assms by linarith

lemma MakeDay_abs:
  assumes "\<bar>y\<bar> \<le> 200000" "0 \<le> m" "m \<le> 11" "0 \<le> d" "d \<le> 40"
  shows "\<bar>MakeDay y m d\<bar> \<le> 99999999"
proof -
  have l: "0 \<le> InLeapYear y" "InLeapYear y \<le> 1" using InLeapYear_range[of y] by auto
  have "0 \<le> monthStart m (InLeapYear y)" "monthStart m (InLeapYear y) \<le> 365 + InLeapYear y"
    using monthStart_end[OF assms(2,3) l] monthLength_range[OF assms(2,3) l] by auto
  moreover have "\<bar>DayFromYear y\<bar> \<le> 74000000" using assms(1) by (intro DayFromYear_abs) simp
  moreover have "MakeDay y m d = DayFromYear y + monthStart m (InLeapYear y) + d - 1"
    using assms(2,3) by (simp add: MakeDay_def Let_def)
  ultimately show ?thesis using assms(4,5) l by linarith
qed

lemma MakeFullYear_abs: "\<bar>y\<bar> \<le> 198000 \<Longrightarrow> \<bar>MakeFullYear y\<bar> \<le> 200000"
  by (simp add: MakeFullYear_def)

lemma DayFromYear_1000: "DayFromYear 1000 = - 354285"
  by (simp add: DayFromYear_def)

lemma DayFromYear_10000: "DayFromYear 10000 = 2932897"
  by (simp add: DayFromYear_def)

lemma fourDigitYear_days:
  assumes "1000 \<le> YearFromDay n" "YearFromDay n \<le> 9999"
  shows "- 354285 \<le> n" and "n < 2932897"
proof -
  have "DayFromYear 1000 \<le> DayFromYear (YearFromDay n)" using assms(1) by (rule DayFromYear_mono)
  then show "- 354285 \<le> n" using YearFromDay_bounds[of n] by (simp add: DayFromYear_1000)
  have "YearFromDay n + 1 \<le> 10000" using assms(2) by simp
  then have "DayFromYear (YearFromDay n + 1) \<le> DayFromYear 10000" by (rule DayFromYear_mono)
  then show "n < 2932897" using YearFromDay_bounds[of n] by (simp add: DayFromYear_10000)
qed

lemma fourDigitYear_between:
  assumes "1000 \<le> YearFromDay l" "YearFromDay t \<le> 9999" "l \<le> p" "p \<le> t"
  shows "1000 \<le> YearFromDay p \<and> YearFromDay p \<le> 9999"
  using assms YearFromDay_mono[of l p] YearFromDay_mono[of p t] by linarith

section \<open>Numbers and strings\<close>

lemma digit_cases: "d < (10::nat) \<Longrightarrow> d \<in> {0, 1, 2, 3, 4, 5, 6, 7, 8, 9}"
  by (simp add: numeral_eq_Suc less_Suc_eq)

lemma digitChar_props:
  assumes "d < 10"
  shows "isDecimalDigit (''0123456789'' ! d)"
    and "digitValue (''0123456789'' ! d) = d"
proof -
  have d: "d \<in> {0, 1, 2, 3, 4, 5, 6, 7, 8, 9}" using assms by (rule digit_cases)
  show "isDecimalDigit (''0123456789'' ! d)"
    using d by (elim insertE emptyE; simp add: isDecimalDigit_def)
  show "digitValue (''0123456789'' ! d) = d"
    using d by (elim insertE emptyE; simp add: digitValue_def lowerHex_def)
qed

lemma isDecimalDigit_cases:
  "isDecimalDigit c \<Longrightarrow>
     c = CHR ''0'' \<or> c = CHR ''1'' \<or> c = CHR ''2'' \<or> c = CHR ''3'' \<or> c = CHR ''4'' \<or>
     c = CHR ''5'' \<or> c = CHR ''6'' \<or> c = CHR ''7'' \<or> c = CHR ''8'' \<or> c = CHR ''9''"
  by (simp add: isDecimalDigit_def)

lemma isDecimalDigit_props:
  assumes "isDecimalDigit c"
  shows "\<not> isStrWhiteSpaceChar c" and "c \<noteq> CHR ''-''" and "c \<noteq> CHR ''+''" and "c \<noteq> CHR ''I''"
    and "c \<noteq> CHR ''.''" and "digitValue c < 10"
    and "c \<notin> {CHR ''b'', CHR ''B'', CHR ''o'', CHR ''O'', CHR ''x'', CHR ''X''}"
proof -
  note c = isDecimalDigit_cases[OF assms]
  show "\<not> isStrWhiteSpaceChar c" using c by (elim disjE; simp add: isStrWhiteSpaceChar_def)
  show "c \<noteq> CHR ''-''" using c by (elim disjE; simp)
  show "c \<noteq> CHR ''+''" using c by (elim disjE; simp)
  show "c \<noteq> CHR ''I''" using c by (elim disjE; simp)
  show "c \<noteq> CHR ''.''" using c by (elim disjE; simp)
  show "digitValue c < 10" using c by (elim disjE; simp add: digitValue_def lowerHex_def)
  show "c \<notin> {CHR ''b'', CHR ''B'', CHR ''o'', CHR ''O'', CHR ''x'', CHR ''X''}"
    using c by (elim disjE; simp)
qed

lemma decimalDigits_nonempty: "decimalDigits n \<noteq> []"
  by (subst decimalDigits.simps) simp

lemma decimalDigits_all: "list_all isDecimalDigit (decimalDigits n)"
proof (induction n rule: decimalDigits.induct)
  case (1 n)
  show ?case
  proof (cases "n < 10")
    case True
    then show ?thesis by (subst decimalDigits.simps) (simp add: digitChar_props)
  next
    case False
    have "n mod 10 < 10" by simp
    then have "isDecimalDigit (''0123456789'' ! (n mod 10))" by (rule digitChar_props)
    with False 1 show ?thesis by (subst decimalDigits.simps) simp
  qed
qed

lemma digitsValue_snoc: "digitsValue r (ds @ [c]) = r * digitsValue r ds + digitValue c"
  by (simp add: digitsValue_def)

lemma digitsValue_less:
  "list_all isDecimalDigit ds \<Longrightarrow> digitsValue 10 ds < 10 ^ length ds"
proof (induction ds rule: rev_induct)
  case Nil
  then show ?case by (simp add: digitsValue_def)
next
  case (snoc c ds)
  then have "digitsValue 10 ds < 10 ^ length ds" "digitValue c < 10"
    by (simp_all add: isDecimalDigit_props)
  then have "10 * digitsValue 10 ds + digitValue c < 10 * 10 ^ length ds" by linarith
  then show ?case by (simp add: digitsValue_snoc)
qed

lemma digitsValue_decimalDigits: "digitsValue 10 (decimalDigits n) = n"
proof (induction n rule: decimalDigits.induct)
  case (1 n)
  show ?case
  proof (cases "n < 10")
    case True
    then show ?thesis by (subst decimalDigits.simps) (simp add: digitsValue_def digitChar_props)
  next
    case False
    have "n mod 10 < 10" by simp
    then have "digitValue (''0123456789'' ! (n mod 10)) = n mod 10" by (rule digitChar_props)
    with False 1 show ?thesis by (subst decimalDigits.simps) (simp add: digitsValue_snoc)
  qed
qed

lemma zero_isDecimalDigit: "isDecimalDigit CHR ''0''"
  by (simp add: isDecimalDigit_def)

lemma digitValue_zero: "digitValue CHR ''0'' = 0"
  by (simp add: digitValue_def lowerHex_def)

lemma digitsValue_zero_Cons: "digitsValue 10 (CHR ''0'' # ds) = digitsValue 10 ds"
  by (simp add: digitsValue_def digitValue_zero)

lemma digitsValue_zeros: "digitsValue 10 (replicate k CHR ''0'' @ ds) = digitsValue 10 ds"
  by (induction k) (simp_all add: digitsValue_zero_Cons)

text \<open>A number from 0 to 99 padded to two digits.\<close>

lemma pad2_props:
  assumes "0 \<le> v" "v < 100"
  shows "pad2 (Some v) \<noteq> []" and "list_all isDecimalDigit (pad2 (Some v))"
    and "digitsValue 10 (pad2 (Some v)) = nat v"
proof -
  have p: "pad2 (Some v) = replicate (2 - length (decimalDigits (nat v))) CHR ''0'' @ decimalDigits (nat v)"
    using assms by (simp add: pad2_def padStart0_def NumberToString_def)
  show "pad2 (Some v) \<noteq> []" using p decimalDigits_nonempty by simp
  show "list_all isDecimalDigit (pad2 (Some v))"
    using p decimalDigits_all[of "nat v"] zero_isDecimalDigit by (auto simp: list_all_iff)
  show "digitsValue 10 (pad2 (Some v)) = nat v"
    using p by (simp add: digitsValue_zeros digitsValue_decimalDigits)
qed

lemma dropWhile_hd: "xs \<noteq> [] \<Longrightarrow> \<not> P (hd xs) \<Longrightarrow> dropWhile P xs = xs"
  by (cases xs) auto

lemma trimString_digits:
  assumes "ds \<noteq> []" "list_all isDecimalDigit ds"
  shows "trimString ds = ds"
proof -
  have h: "\<not> isStrWhiteSpaceChar (hd ds)" using assms by (cases ds) (auto simp: isDecimalDigit_props)
  have l: "\<not> isStrWhiteSpaceChar (last ds)" using assms
    by (metis isDecimalDigit_props(1) last_in_set list_all_iff)
  have 1: "dropWhile isStrWhiteSpaceChar ds = ds" using h assms(1) by (rule dropWhile_hd[rotated])
  have "hd (rev ds) = last ds" using assms(1) by (simp add: hd_rev)
  then have 2: "dropWhile isStrWhiteSpaceChar (rev ds) = rev ds" using l assms(1) by (intro dropWhile_hd) auto
  show ?thesis by (simp add: trimString_def 1 2)
qed

lemma StringToNumber_digits:
  assumes "ds \<noteq> []" "list_all isDecimalDigit ds"
  shows "StringToNumber ds = Num (of_nat (digitsValue 10 ds))"
proof -
  obtain c r where ds: "ds = c # r" using assms(1) by (cases ds) auto
  have c: "isDecimalDigit c" using assms(2) ds by simp
  have nd: "NonDecimalIntegerLiteral ds = None"
  proof (cases r)
    case Nil
    then show ?thesis by (simp add: NonDecimalIntegerLiteral_def ds)
  next
    case (Cons x r')
    then have "isDecimalDigit x" using assms(2) ds by simp
    then have "x \<notin> {CHR ''b'', CHR ''B'', CHR ''o'', CHR ''O'', CHR ''x'', CHR ''X''}"
      by (rule isDecimalDigit_props)
    then show ?thesis by (simp add: NonDecimalIntegerLiteral_def ds Cons Let_def)
  qed
  have tw: "takeWhile isDecimalDigit ds = ds" "dropWhile isDecimalDigit ds = []"
    using assms(2) by (simp_all add: list_all_iff)
  have ninf: "ds \<noteq> ''Infinity''" using c isDecimalDigit_props(4)[OF c] ds by auto
  have un: "StrUnsignedDecimalLiteral ds = Num (of_nat (digitsValue 10 ds))"
    using ninf assms(1)
    by (simp add: StrUnsignedDecimalLiteral_def tw Let_def ExponentPart_def scale10_def)
  have "StrDecimalLiteral ds = StrUnsignedDecimalLiteral ds"
    using isDecimalDigit_props(2,3)[OF c] by (simp add: StrDecimalLiteral_def ds)
  then show ?thesis
    using nd un assms(1) by (simp add: StringToNumber_def trimString_digits[OF assms] Let_def)
qed

lemma splitDash_nodash: "CHR ''-'' \<notin> set s \<Longrightarrow> splitDash s = [s]"
  by (induction s) auto

lemma splitDash_append:
  "CHR ''-'' \<notin> set s \<Longrightarrow> splitDash (s @ CHR ''-'' # r) = s # splitDash r"
  by (induction s) auto

lemma digits_nodash: "list_all isDecimalDigit ds \<Longrightarrow> CHR ''-'' \<notin> set ds"
  using isDecimalDigit_props(2) by (auto simp: list_all_iff)

section \<open>Dates and day identifiers\<close>

lemma dstZone_madrid: "dstZone madrid"
  by (simp add: dstZone_def madrid_def)

lemma makeDate_valid:
  assumes "dstZone tz" "\<bar>n\<bar> \<le> 99999999"
  shows "makeDate tz n = LocalDay n"
proof -
  have "\<bar>tz n\<bar> \<le> 50400000" using assms(1) by (simp add: dstZone_def)
  then have "\<bar>timeValue tz n\<bar> \<le> 8640000000000000"
    using assms(2) by (simp add: timeValue_def msPerDay_def)
  then show ?thesis by (simp add: makeDate_def)
qed

lemma ToInteger_of_nat: "ToIntegerOrInfinity (of_nat k) = int k"
  by (simp add: ToIntegerOrInfinity_def)

lemma ToInteger_of_int: "ToIntegerOrInfinity (of_int k) = k"
  by (simp add: ToIntegerOrInfinity_def)

lemma newDate_int:
  "newDate tz (Num (of_int y)) (Num (of_int m)) (Num (of_int d))
     = makeDate tz (MakeDay (MakeFullYear y) m d)"
  by (simp add: newDate_def ToInteger_of_int)

lemma toISODate_LocalDay:
  "toISODate (LocalDay n) =
     NumberToString (Some (YearFromDay n)) @ ''-'' @ pad2 (Some (MonthFromDay n + 1)) @ ''-''
       @ pad2 (Some (DateFromDay n))"
  by (simp add: toISODate_def getFullYear_def getMonth_def getDate_def plus_def)

lemma parseISO_toISODate:
  assumes "dstZone tz" "100 \<le> YearFromDay n" "\<bar>n\<bar> \<le> 99999999"
  shows "parseISO tz (toISODate (LocalDay n)) = LocalDay n"
proof -
  let ?Y = "YearFromDay n" and ?M = "MonthFromDay n" and ?D = "DateFromDay n"
  let ?ys = "decimalDigits (nat ?Y)" and ?ms = "pad2 (Some (?M + 1))" and ?ds = "pad2 (Some ?D)"
  have m: "0 \<le> ?M + 1" "?M + 1 < 100" using MonthFromDay_range[of n] by auto
  have d: "0 \<le> ?D" "?D < 100" using DateFromDay_range[of n] by auto
  have ys: "?ys \<noteq> []" "list_all isDecimalDigit ?ys" "digitsValue 10 ?ys = nat ?Y"
    by (simp_all add: decimalDigits_nonempty decimalDigits_all digitsValue_decimalDigits)
  note ms = pad2_props[OF m] and ds = pad2_props[OF d]
  have iso: "toISODate (LocalDay n) = ?ys @ CHR ''-'' # (?ms @ CHR ''-'' # ?ds)"
    using assms(2) by (simp add: toISODate_LocalDay NumberToString_def)
  have sp: "splitDash (toISODate (LocalDay n)) = [?ys, ?ms, ?ds]"
    unfolding iso
    by (simp add: splitDash_append splitDash_nodash digits_nodash ys ms ds)
  have nums: "StringToNumber ?ys = Num (of_nat (nat ?Y))"
    "StringToNumber ?ms = Num (of_nat (nat (?M + 1)))"
    "StringToNumber ?ds = Num (of_nat (nat ?D))"
    by (simp_all add: StringToNumber_digits ys ms ds)
  have "parseISO tz (toISODate (LocalDay n)) =
      newDate tz (Num (of_nat (nat ?Y))) (minusOne (Num (of_nat (nat (?M + 1))))) (Num (of_nat (nat ?D)))"
    by (simp add: parseISO_def sp nums del: of_nat_add)
  also have "minusOne (Num (of_nat (nat (?M + 1)))) = Num (of_nat (nat ?M))"
    using MonthFromDay_range[of n] by (simp add: minusOne_def nat_add_distrib)
  also have "newDate tz (Num (of_nat (nat ?Y))) (Num (of_nat (nat ?M))) (Num (of_nat (nat ?D)))
      = makeDate tz (MakeDay ?Y ?M ?D)"
    using assms(2) MonthFromDay_range[of n] d
    by (simp add: newDate_def MakeFullYear_def ToInteger_of_nat ToInteger_of_int)
  also have "\<dots> = LocalDay n"
    using assms by (simp add: MakeDay_roundtrip makeDate_valid)
  finally show ?thesis .
qed

lemma isDayId_toISODate:
  assumes "dstZone tz" "1000 \<le> YearFromDay n" "YearFromDay n \<le> 9999"
  shows "isDayId tz (toISODate (LocalDay n))"
    and "parseISO tz (toISODate (LocalDay n)) = LocalDay n"
proof -
  have "\<bar>n\<bar> \<le> 99999999" using fourDigitYear_days[OF assms(2,3)] by linarith
  then show p: "parseISO tz (toISODate (LocalDay n)) = LocalDay n"
    using assms by (intro parseISO_toISODate) auto
  show "isDayId tz (toISODate (LocalDay n))"
    using assms by (simp add: isDayId_def p)
qed

lemma isDayId_D:
  assumes "isDayId tz s"
  obtains n where "parseISO tz s = LocalDay n" "1000 \<le> YearFromDay n" "YearFromDay n \<le> 9999"
    "toISODate (LocalDay n) = s"
  using assms by (auto simp: isDayId_def split: Date.splits)

lemma toISODate_inject:
  assumes "dstZone tz"
    and "1000 \<le> YearFromDay p" "YearFromDay p \<le> 9999"
    and "1000 \<le> YearFromDay q" "YearFromDay q \<le> 9999"
    and "toISODate (LocalDay p) = toISODate (LocalDay q)"
  shows "p = q"
proof -
  have "LocalDay p = parseISO tz (toISODate (LocalDay p))"
    using assms(1,2,3) by (rule isDayId_toISODate(2)[symmetric])
  also have "\<dots> = parseISO tz (toISODate (LocalDay q))"
    by (simp only: assms(6))
  also have "\<dots> = LocalDay q"
    using assms(1,4,5) by (rule isDayId_toISODate)
  finally show ?thesis by simp
qed

lemma addDaysISO_LocalDay:
  assumes "dstZone tz" "parseISO tz lc = LocalDay l" "\<bar>l + j\<bar> \<le> 99999999"
  shows "addDaysISO tz lc j = toISODate (LocalDay (l + j))"
proof -
  have "addDays tz (LocalDay l) j = makeDate tz (l + j)"
    by (simp add: addDays_def setDate_def getDate_def plus_def MakeDay_fields)
  then show ?thesis using assms by (simp add: addDaysISO_def makeDate_valid)
qed

lemma Math_round_near:
  assumes "\<bar>e\<bar> < 43200000"
  shows "Math_round (of_int (86400000 * k + e) / of_int 86400000) = k"
proof -
  have eq: "(of_int (86400000 * k + e) / of_int 86400000 :: rat) + 1 / 2
      = of_int k + (of_int e / 86400000 + 1 / 2)"
    by (simp add: add_divide_distrib)
  have fl: "\<lfloor>(of_int e / 86400000 + 1 / 2 :: rat)\<rfloor> = 0"
  proof -
    have "(- 43200000 :: rat) < of_int e" "of_int e < (43200000 :: rat)"
      using assms by linarith+
    then have "0 \<le> (of_int e / 86400000 + 1 / 2 :: rat)" "(of_int e / 86400000 + 1 / 2 :: rat) < 1"
      by (simp_all add: field_simps)
    then show ?thesis by (simp add: floor_eq_iff)
  qed
  have "Math_round (of_int (86400000 * k + e) / of_int 86400000)
      = \<lfloor>of_int k + (of_int e / 86400000 + 1 / 2 :: rat)\<rfloor>"
    unfolding Math_round_def eq ..
  also have "\<dots> = k + \<lfloor>(of_int e / 86400000 + 1 / 2 :: rat)\<rfloor>"
    by (rule int_add_floor[symmetric])
  finally show ?thesis using fl by simp
qed

lemma Math_round_zero: "Math_round 0 = 0"
  by (simp add: Math_round_def floor_eq_iff)

lemma diffDays_LocalDay:
  assumes "parseISO tz a = LocalDay m" "parseISO tz b = LocalDay n" "\<bar>tz m - tz n\<bar> < 43200000"
  shows "diffDays tz a b = Some (n - m)"
proof -
  have "timeValue tz n - timeValue tz m = 86400000 * (n - m) + (tz m - tz n)"
    by (simp add: timeValue_def msPerDay_def algebra_simps)
  then show ?thesis
    using Math_round_near[OF assms(3), of "n - m"]
    by (simp add: diffDays_def assms(1,2) getTime_def)
qed

lemma diffDays_empty: "diffDays tz [] today = None"
  by (simp add: diffDays_def parseISO_def getTime_def)

lemma diffDays_self: "diffDays tz s s = None \<or> diffDays tz s s = Some 0"
  by (cases "parseISO tz s") (simp_all add: diffDays_def getTime_def Math_round_zero)

text \<open>
  The identifiers that the specification calls well-formed: \<^verbatim>\<open>parseISO\<close> splits them into
  their three pieces and builds the date from the three numbers; the year goes through
  \<^verbatim>\<open>MakeFullYear\<close>.
\<close>

lemma specWellFormed_pieces:
  assumes "specWellFormed s"
  shows "s = take 4 s @ CHR ''-'' # take 2 (drop 5 s) @ CHR ''-'' # drop 8 s"
    and "length (take 4 s) = 4" "length (take 2 (drop 5 s)) = 2" "length (drop 8 s) = 2"
    and "list_all isDecimalDigit (take 4 s)" "list_all isDecimalDigit (take 2 (drop 5 s))"
      "list_all isDecimalDigit (drop 8 s)"
proof -
  have l: "length s = 10" and d4: "s ! 4 = CHR ''-''" and d7: "s ! 7 = CHR ''-''"
    using assms by (simp_all add: specWellFormed_def)
  have a: "drop 4 s = CHR ''-'' # drop 5 s"
    using Cons_nth_drop_Suc[of 4 s] l d4 by simp
  have b: "drop 7 s = CHR ''-'' # drop 8 s"
    using Cons_nth_drop_Suc[of 7 s] l d7 by simp
  have c: "drop 5 s = take 2 (drop 5 s) @ drop 7 s"
    using append_take_drop_id[of 2 "drop 5 s"] by simp
  have "s = take 4 s @ drop 4 s" by simp
  also have "\<dots> = take 4 s @ CHR ''-'' # take 2 (drop 5 s) @ CHR ''-'' # drop 8 s"
    using a b c by simp
  finally show "s = take 4 s @ CHR ''-'' # take 2 (drop 5 s) @ CHR ''-'' # drop 8 s" .
  show "length (take 4 s) = 4" "length (take 2 (drop 5 s)) = 2" "length (drop 8 s) = 2"
    using l by simp_all
  show "list_all isDecimalDigit (take 4 s)" "list_all isDecimalDigit (take 2 (drop 5 s))"
    "list_all isDecimalDigit (drop 8 s)"
    using assms by (simp_all add: specWellFormed_def)
qed

lemma specWellFormed_fields:
  assumes "specWellFormed s"
  shows "0 \<le> specYear s" "specYear s \<le> 9999" "1 \<le> specMonth s" "specMonth s \<le> 12"
    and "1 \<le> specDate s" "specDate s \<le> monthLength (specMonth s - 1) (InLeapYear (specYear s))"
proof -
  show "0 \<le> specYear s" by (simp add: specYear_def)
  have "digitsValue 10 (take 4 s) < 10 ^ length (take 4 s)"
    using specWellFormed_pieces(5)[OF assms] by (rule digitsValue_less)
  then show "specYear s \<le> 9999"
    using specWellFormed_pieces(2)[OF assms] by (simp add: specYear_def)
  show "1 \<le> specMonth s" "specMonth s \<le> 12" "1 \<le> specDate s"
    "specDate s \<le> monthLength (specMonth s - 1) (InLeapYear (specYear s))"
    using assms by (simp_all add: specWellFormed_def specYear_def specMonth_def specDate_def Let_def)
qed

lemma parseISO_specWellFormed:
  assumes "dstZone tz" "specWellFormed s"
  shows "parseISO tz s
       = LocalDay (MakeDay (MakeFullYear (specYear s)) (specMonth s - 1) (specDate s))"
proof -
  let ?ys = "take 4 s" and ?ms = "take 2 (drop 5 s)" and ?ds = "drop 8 s"
  note p = specWellFormed_pieces[OF assms(2)] and f = specWellFormed_fields[OF assms(2)]
  have ne: "?ys \<noteq> []" "?ms \<noteq> []" "?ds \<noteq> []" using p(2,3,4) by auto
  have "splitDash (?ys @ CHR ''-'' # ?ms @ CHR ''-'' # ?ds) = [?ys, ?ms, ?ds]"
    using p(5,6,7) by (simp add: splitDash_append splitDash_nodash digits_nodash)
  then have sp: "splitDash s = [?ys, ?ms, ?ds]" using p(1) by simp
  have nums: "StringToNumber ?ys = Num (of_int (specYear s))"
    "StringToNumber ?ms = Num (of_int (specMonth s))"
    "StringToNumber ?ds = Num (of_int (specDate s))"
    using ne p(5,6,7) by (simp_all add: StringToNumber_digits specYear_def specMonth_def specDate_def)
  have mo: "minusOne (Num (of_int (specMonth s))) = Num (of_int (specMonth s - 1))"
    by (simp add: minusOne_def)
  have "parseISO tz s = newDate tz (Num (of_int (specYear s))) (Num (of_int (specMonth s - 1)))
      (Num (of_int (specDate s)))"
    unfolding parseISO_def sp by (simp add: nums mo del: of_int_diff)
  also have "\<dots> = makeDate tz (MakeDay (MakeFullYear (specYear s)) (specMonth s - 1) (specDate s))"
    by (rule newDate_int)
  also have "\<dots> = LocalDay (MakeDay (MakeFullYear (specYear s)) (specMonth s - 1) (specDate s))"
  proof -
    have ml: "monthLength (specMonth s - 1) (InLeapYear (specYear s)) \<le> 31"
      using monthLength_range[of "specMonth s - 1" "InLeapYear (specYear s)"] f(3,4)
        InLeapYear_range[of "specYear s"] by auto
    have "\<bar>MakeFullYear (specYear s)\<bar> \<le> 200000"
      using f(1,2) by (intro MakeFullYear_abs) simp
    then have "\<bar>MakeDay (MakeFullYear (specYear s)) (specMonth s - 1) (specDate s)\<bar> \<le> 99999999"
      using f ml by (intro MakeDay_abs) auto
    then show ?thesis using assms(1) by (simp add: makeDate_valid)
  qed
  finally show ?thesis .
qed

text \<open>Between two of the program's day identifiers, \<^verbatim>\<open>diffDays\<close> is the number of days
  that \<^verbatim>\<open>addDaysISO\<close> adds to the first to reach the second.\<close>

lemma diffDays_addDaysISO:
  assumes "dstZone tz" "isDayId tz a" "isDayId tz b"
    and "parseISO tz a = LocalDay m" "parseISO tz b = LocalDay n"
  shows "diffDays tz a b = Some (n - m)
       \<and> (0 < n - m \<longleftrightarrow> m < n)
       \<and> addDaysISO tz a (n - m) = b"
proof -
  have "\<bar>tz m - tz n\<bar> < 43200000" using assms(1) by (simp add: dstZone_def)
  then have d: "diffDays tz a b = Some (n - m)"
    using assms(4,5) by (intro diffDays_LocalDay)
  have fn: "1000 \<le> YearFromDay n" "YearFromDay n \<le> 9999" "toISODate (LocalDay n) = b"
    using assms(3,5) by (auto elim: isDayId_D)
  then have "\<bar>m + (n - m)\<bar> \<le> 99999999" using fourDigitYear_days[of n] by simp
  then have "addDaysISO tz a (n - m) = toISODate (LocalDay (m + (n - m)))"
    using assms(1,4) by (intro addDaysISO_LocalDay)
  then show ?thesis using d fn(3) by simp
qed

lemma dateGreater_LocalDay:
  assumes "dstZone tz"
  shows "dateGreater tz (LocalDay n) (LocalDay t) = (t < n)"
proof -
  have b: "\<bar>tz n - tz t\<bar> < 43200000" using assms by (simp add: dstZone_def)
  have g: "dateGreater tz (LocalDay n) (LocalDay t) = (86400000 * t - tz t < 86400000 * n - tz n)"
    by (simp add: dateGreater_def getTime_def timeValue_def msPerDay_def)
  consider "t < n" | "t = n" | "n < t" by linarith
  then show ?thesis
  proof cases
    case 1
    then have "t + 1 \<le> n" by simp
    then show ?thesis unfolding g using b 1 by linarith
  next
    case 2
    then show ?thesis unfolding g by simp
  next
    case 3
    then have "n + 1 \<le> t" by simp
    then show ?thesis unfolding g using b 3 by linarith
  qed
qed

text \<open>The day of the month of the last day of a month: the length of the month.\<close>

lemma daysInMonth_monthLength:
  assumes "dstZone tz" "\<bar>year\<bar> \<le> 198000" "0 \<le> m" "m \<le> 11"
  shows "daysInMonth tz year m = Some (monthLength m (InLeapYear (MakeFullYear year)))"
proof -
  let ?y = "MakeFullYear year"
  let ?len = "monthLength m (InLeapYear ?y)"
  have len: "28 \<le> ?len" "?len \<le> 31"
    using monthLength_range[OF assms(3,4), of "InLeapYear ?y"] InLeapYear_range[of ?y] by auto
  have "\<bar>MakeDay ?y m ?len\<bar> \<le> 99999999"
    using assms(3,4) len MakeFullYear_abs[OF assms(2)] by (intro MakeDay_abs) auto
  moreover have "newDate tz (Num (of_int year)) (Num (of_int (m + 1))) (Num 0)
      = makeDate tz (MakeDay ?y (m + 1) 0)"
    using newDate_int[of tz year "m + 1" 0] by simp
  ultimately have "daysInMonth tz year m = Some (DateFromDay (MakeDay ?y m ?len))"
    using assms(1) unfolding daysInMonth_def
    by (simp add: MakeDay_next_month[OF assms(3,4)] makeDate_valid getDate_def)
  moreover have "DateFromDay (MakeDay ?y m ?len) = ?len"
    using assms(3,4) len by (intro fields_MakeDay) auto
  ultimately show ?thesis by simp
qed

section \<open>The closure loops\<close>

lemma getStatus_entry:
  "getStatus sbd a d = (case entry sbd a d of None \<Rightarrow> Null | Some v \<Rightarrow> v)"
  by (simp add: getStatus_def entry_def split: option.splits)

lemma entry_setStatus:
  "entry (setStatus sbd a d v) a' d' = (if a' = a \<and> d' = d then Some v else entry sbd a' d')"
  by (auto simp add: entry_def setStatus_def update_conv' split: option.splits)

lemma entry_of_getStatus: "getStatus sbd a d \<noteq> Null \<Longrightarrow> entry sbd a d = Some (getStatus sbd a d)"
  by (auto simp add: getStatus_entry split: option.splits)

lemma entry_not_key: "a \<notin> fst ` set sbd \<Longrightarrow> entry sbd a d = None"
proof -
  assume "a \<notin> fst ` set sbd"
  then have "map_of sbd a = None" by (simp add: map_of_eq_None_iff)
  then show ?thesis by (simp add: entry_def)
qed

text \<open>The inner loop writes \<^verbatim>\<open>"missed"\<close> where an activity of the list has no mark for
  the day, and nothing else.\<close>

lemma entry_closeDay:
  "entry (closeDay acts day sbd) a d =
     (if d = day \<and> a \<in> id' ` set acts \<and> getStatus sbd a day = Null then Some Missed
      else entry sbd a d)"
proof (induction acts arbitrary: sbd)
  case Nil
  then show ?case by (simp add: closeDay_def)
next
  case (Cons x acts)
  let ?s = "if getStatus sbd (id' x) day = Null then setStatus sbd (id' x) day Missed else sbd"
  have step: "closeDay (x # acts) day sbd = closeDay acts day ?s"
    by (simp add: closeDay_def)
  have e: "entry ?s a d =
      (if d = day \<and> a = id' x \<and> getStatus sbd a day = Null then Some Missed else entry sbd a d)"
    by (auto simp add: entry_setStatus)
  have g: "getStatus ?s a day =
      (if a = id' x \<and> getStatus sbd a day = Null then Missed else getStatus sbd a day)"
    by (auto simp add: getStatus_entry entry_setStatus)
  show ?case
    unfolding step Cons.IH e g by auto
qed

lemma getStatus_closeDay:
  "getStatus (closeDay acts day sbd) a d =
     (if d = day \<and> a \<in> id' ` set acts \<and> getStatus sbd a day = Null then Missed
      else getStatus sbd a d)"
  by (simp add: getStatus_entry[of "closeDay acts day sbd"] entry_closeDay)
     (simp add: getStatus_entry)

text \<open>Whatever the inputs, the outer loop changes a property only by writing
  \<^verbatim>\<open>"missed"\<close>, for an activity of the list, on a day it has computed that is not today
  and that had no mark.\<close>

lemma entry_closeDaysFrom:
  "entry (closeDaysFrom tz acts lc today days i sbd) a d = entry sbd a d
   \<or> (entry (closeDaysFrom tz acts lc today days i sbd) a d = Some Missed
      \<and> getStatus sbd a d = Null \<and> a \<in> id' ` set acts \<and> d \<noteq> today
      \<and> (\<exists>j. i \<le> j \<and> j \<le> days \<and> d = addDaysISO tz lc j))"
proof (induction tz acts lc today days i sbd rule: closeDaysFrom.induct)
  case (1 tz acts lc today days i sbd)
  let ?day = "addDaysISO tz lc i"
  show ?case
  proof (cases "i \<le> days \<and> ?day \<noteq> today")
    case False
    then have "closeDaysFrom tz acts lc today days i sbd = sbd"
      by (subst closeDaysFrom.simps) (auto simp: Let_def)
    then show ?thesis by simp
  next
    case True
    let ?next = "closeDay acts ?day sbd"
    let ?r = "closeDaysFrom tz acts lc today days (i + 1) ?next"
    have r: "closeDaysFrom tz acts lc today days i sbd = ?r"
      using True by (subst closeDaysFrom.simps) (simp add: Let_def)
    from True have ih:
      "entry ?r a d = entry ?next a d
       \<or> (entry ?r a d = Some Missed \<and> getStatus ?next a d = Null \<and> a \<in> id' ` set acts
          \<and> d \<noteq> today \<and> (\<exists>j. i + 1 \<le> j \<and> j \<le> days \<and> d = addDaysISO tz lc j))"
      by (intro "1.IH") auto
    show ?thesis
    proof (cases "entry ?r a d = entry ?next a d")
      case same: True
      show ?thesis
      proof (cases "d = ?day \<and> a \<in> id' ` set acts \<and> getStatus sbd a ?day = Null")
        case w: True
        then have "entry ?r a d = Some Missed" using same by (simp add: entry_closeDay)
        moreover have "i \<le> i \<and> i \<le> days \<and> d = addDaysISO tz lc i" using True w by simp
        ultimately show ?thesis unfolding r using w True by blast
      next
        case False
        then have "entry ?r a d = entry sbd a d" using same by (auto simp add: entry_closeDay)
        then show ?thesis unfolding r by simp
      qed
    next
      case False
      with ih have h: "entry ?r a d = Some Missed" "getStatus ?next a d = Null" "a \<in> id' ` set acts"
        "d \<noteq> today" "\<exists>j. i + 1 \<le> j \<and> j \<le> days \<and> d = addDaysISO tz lc j"
        by auto
      from h(2) have "getStatus sbd a d = Null"
        by (auto simp add: getStatus_closeDay split: if_splits)
      moreover from h(5) obtain j where "i + 1 \<le> j" "j \<le> days" "d = addDaysISO tz lc j" by auto
      then have "i \<le> j \<and> j \<le> days \<and> d = addDaysISO tz lc j" by simp
      ultimately show ?thesis unfolding r using h by blast
    qed
  qed
qed

text \<open>Between two day identifiers the outer loop, started at counter \<open>i\<close>, marks every
  day from \<open>l + i\<close> up to the day before today.\<close>

lemma closeDaysFrom_complete:
  assumes tz: "dstZone tz"
    and lc: "parseISO tz lc = LocalDay l" "1000 \<le> YearFromDay l"
    and td: "today = toISODate (LocalDay t)" "YearFromDay t \<le> 9999"
    and a: "a \<in> id' ` set acts"
  shows "0 \<le> i \<Longrightarrow> i \<le> j \<Longrightarrow> l + j < t \<Longrightarrow>
     entry (closeDaysFrom tz acts lc today (t - l) i sbd) a (toISODate (LocalDay (l + j)))
       = Some (if getStatus sbd a (toISODate (LocalDay (l + j))) = Null then Missed
               else getStatus sbd a (toISODate (LocalDay (l + j))))"
proof (induction "nat (j - i)" arbitrary: i sbd)
  case 0
  then have ij: "i = j" by simp
  let ?d = "toISODate (LocalDay (l + j))"
  have fj: "1000 \<le> YearFromDay (l + j) \<and> YearFromDay (l + j) \<le> 9999"
    using lc(2) td(2) 0 by (intro fourDigitYear_between[of l t]) auto
  have ft: "1000 \<le> YearFromDay t \<and> YearFromDay t \<le> 9999"
    using lc(2) td(2) 0 by (intro fourDigitYear_between[of l t]) auto
  have rng: "\<bar>l + j\<bar> \<le> 99999999" using fourDigitYear_days[of "l + j"] fj by linarith
  have day: "addDaysISO tz lc j = ?d" using tz lc(1) rng by (rule addDaysISO_LocalDay)
  have ne: "?d \<noteq> today"
  proof
    assume "?d = today"
    then have "l + j = t" unfolding td(1) using tz fj ft by (intro toISODate_inject[of tz]) auto
    then show False using 0 by simp
  qed
  let ?next = "closeDay acts ?d sbd"
  let ?r = "closeDaysFrom tz acts lc today (t - l) (j + 1) ?next"
  have r: "closeDaysFrom tz acts lc today (t - l) i sbd = ?r"
    unfolding ij using 0 ne day by (subst closeDaysFrom.simps) (simp add: Let_def)
  have g: "getStatus ?next a ?d = (if getStatus sbd a ?d = Null then Missed else getStatus sbd a ?d)"
    using a by (simp add: getStatus_closeDay)
  then have "getStatus ?next a ?d \<noteq> Null" by auto
  then have "entry ?r a ?d = entry ?next a ?d"
    using entry_closeDaysFrom[of tz acts lc today "t - l" "j + 1" ?next a ?d] by auto
  also have "\<dots> = Some (getStatus ?next a ?d)"
    using \<open>getStatus ?next a ?d \<noteq> Null\<close> by (rule entry_of_getStatus)
  finally show ?case unfolding r g .
next
  case (Suc k)
  then have ij: "i < j" by simp
  let ?d = "toISODate (LocalDay (l + j))" and ?di = "toISODate (LocalDay (l + i))"
  have fj: "1000 \<le> YearFromDay (l + j) \<and> YearFromDay (l + j) \<le> 9999"
    using lc(2) td(2) Suc.prems by (intro fourDigitYear_between[of l t]) auto
  have fi: "1000 \<le> YearFromDay (l + i) \<and> YearFromDay (l + i) \<le> 9999"
    using lc(2) td(2) Suc.prems by (intro fourDigitYear_between[of l t]) auto
  have ft: "1000 \<le> YearFromDay t \<and> YearFromDay t \<le> 9999"
    using lc(2) td(2) Suc.prems by (intro fourDigitYear_between[of l t]) auto
  have rng: "\<bar>l + i\<bar> \<le> 99999999" using fourDigitYear_days[of "l + i"] fi by linarith
  have day: "addDaysISO tz lc i = ?di" using tz lc(1) rng by (rule addDaysISO_LocalDay)
  have ne: "?di \<noteq> today"
  proof
    assume "?di = today"
    then have "l + i = t" unfolding td(1) using tz fi ft by (intro toISODate_inject[of tz]) auto
    then show False using Suc.prems ij by simp
  qed
  have nij: "?d \<noteq> ?di"
  proof
    assume "?d = ?di"
    then have "l + j = l + i" using tz fi fj by (intro toISODate_inject[of tz]) auto
    then show False using ij by simp
  qed
  let ?next = "closeDay acts ?di sbd"
  have r: "closeDaysFrom tz acts lc today (t - l) i sbd
      = closeDaysFrom tz acts lc today (t - l) (i + 1) ?next"
    using Suc.prems ij ne day by (subst closeDaysFrom.simps) (simp add: Let_def)
  have g: "getStatus ?next a ?d = getStatus sbd a ?d"
    using nij by (simp add: getStatus_closeDay)
  have "k = nat (j - (i + 1))" using Suc.hyps(2) by simp
  then have "entry (closeDaysFrom tz acts lc today (t - l) (i + 1) ?next) a ?d
      = Some (if getStatus ?next a ?d = Null then Missed else getStatus ?next a ?d)"
    using Suc.prems ij by (intro Suc.hyps(1)) auto
  then show ?case unfolding r g .
qed

lemma closeMissingDays_at_today:
  "closeMissingDays tz acts sbd (Some today) today = \<lparr>statusByDate = sbd, lastClosedISO = today\<rparr>"
  using diffDays_self[of tz today] by (auto simp add: closeMissingDays_def)

lemma entry_closeMissingDays:
  "entry (statusByDate (closeMissingDays tz acts sbd lastClosed today)) a d = entry sbd a d
   \<or> (\<exists>lc days j.
        lastClosed = Some lc \<and> diffDays tz lc today = Some days \<and> 1 \<le> j \<and> j \<le> days
        \<and> d = addDaysISO tz lc j \<and> d \<noteq> today \<and> a \<in> id' ` set acts
        \<and> getStatus sbd a d = Null
        \<and> entry (statusByDate (closeMissingDays tz acts sbd lastClosed today)) a d = Some Missed)"
proof (cases "\<exists>lc days. lastClosed = Some lc \<and> lc \<noteq> [] \<and> diffDays tz lc today = Some days \<and> 0 < days")
  case False
  then have "statusByDate (closeMissingDays tz acts sbd lastClosed today) = sbd"
    by (auto simp add: closeMissingDays_def split: option.splits)
  then show ?thesis by simp
next
  case True
  then obtain lc days where h: "lastClosed = Some lc" "lc \<noteq> []" "diffDays tz lc today = Some days" "0 < days"
    by auto
  then have r: "statusByDate (closeMissingDays tz acts sbd lastClosed today)
      = closeDaysFrom tz acts lc today days 1 sbd"
    by (simp add: closeMissingDays_def)
  show ?thesis
    unfolding r using entry_closeDaysFrom[of tz acts lc today days 1 sbd a d] h by auto
qed

lemma closeMissingDays_marks_between:
  assumes "dstZone tz" "isDayId tz lc" "isDayId tz today"
    and "parseISO tz lc = LocalDay l" "parseISO tz today = LocalDay t"
    and "l < n" "n < t" "a \<in> set acts"
  shows "entry (statusByDate (closeMissingDays tz acts sbd (Some lc) today)) (id' a)
            (toISODate (LocalDay n))
          = Some (if getStatus sbd (id' a) (toISODate (LocalDay n)) = Null then Missed
                  else getStatus sbd (id' a) (toISODate (LocalDay n)))"
proof -
  have bound: "\<bar>tz l - tz t\<bar> < 43200000" using assms(1) by (simp add: dstZone_def)
  have dd: "diffDays tz lc today = Some (t - l)"
    using assms(4,5) bound by (rule diffDays_LocalDay)
  have ne: "lc \<noteq> []" using dd diffDays_empty[of tz today] by auto
  have fl: "1000 \<le> YearFromDay l"
    using assms(2,4) by (auto elim: isDayId_D)
  have ft: "YearFromDay t \<le> 9999" and td: "today = toISODate (LocalDay t)"
    using assms(3,5) by (auto elim: isDayId_D)
  have r: "statusByDate (closeMissingDays tz acts sbd (Some lc) today)
      = closeDaysFrom tz acts lc today (t - l) 1 sbd"
    using ne dd assms(6,7) by (simp add: closeMissingDays_def)
  have a: "id' a \<in> id' ` set acts" using assms(8) by simp
  have "entry (closeDaysFrom tz acts lc today (t - l) 1 sbd) (id' a) (toISODate (LocalDay (l + (n - l))))
      = Some (if getStatus sbd (id' a) (toISODate (LocalDay (l + (n - l)))) = Null then Missed
              else getStatus sbd (id' a) (toISODate (LocalDay (l + (n - l)))))"
    using assms(1,4) fl td ft a assms(6,7) by (intro closeDaysFrom_complete) auto
  then show ?thesis unfolding r by simp
qed

lemma closeMissingDays_from_today:
  assumes "dstZone tz" "isDayId tz lc" "isDayId tz today"
    and "parseISO tz lc = LocalDay l" "parseISO tz today = LocalDay t"
    and "isDayId tz d" "parseISO tz d = LocalDay n" "t \<le> n"
  shows "entry (statusByDate (closeMissingDays tz acts sbd (Some lc) today)) a d = entry sbd a d"
proof (rule ccontr)
  have bound: "\<bar>tz l - tz t\<bar> < 43200000" using assms(1) by (simp add: dstZone_def)
  have dd: "diffDays tz lc today = Some (t - l)"
    using assms(4,5) bound by (rule diffDays_LocalDay)
  have fl: "1000 \<le> YearFromDay l"
    using assms(2,4) by (auto elim: isDayId_D)
  have ft: "YearFromDay t \<le> 9999" and td: "today = toISODate (LocalDay t)"
    using assms(3,5) by (auto elim: isDayId_D)
  assume "entry (statusByDate (closeMissingDays tz acts sbd (Some lc) today)) a d \<noteq> entry sbd a d"
  then obtain j where j: "1 \<le> j" "j \<le> t - l" "d = addDaysISO tz lc j" "d \<noteq> today"
    using entry_closeMissingDays[of tz acts sbd "Some lc" today a d] dd by auto
  have fj: "1000 \<le> YearFromDay (l + j) \<and> YearFromDay (l + j) \<le> 9999"
    using fl ft j by (intro fourDigitYear_between[of l t]) auto
  then have "\<bar>l + j\<bar> \<le> 99999999" using fourDigitYear_days[of "l + j"] by linarith
  then have d: "d = toISODate (LocalDay (l + j))"
    using assms(1,4) j(3) by (simp add: addDaysISO_LocalDay)
  have "parseISO tz d = LocalDay (l + j)"
    unfolding d using assms(1) fj by (intro isDayId_toISODate) auto
  then have "n = l + j" using assms(7) by simp
  then have "l + j = t" using assms(8) j(2) by simp
  then show False using d td j(4) by simp
qed

lemma onlyMarks_closeMissingDays:
  assumes "onlyMarks sbd"
  shows "onlyMarks (statusByDate (closeMissingDays tz acts sbd lastClosed today))"
  unfolding onlyMarks_def
proof (intro allI)
  fix a d
  have "entry sbd a d \<noteq> Some Null" using assms by (simp add: onlyMarks_def)
  then show "entry (statusByDate (closeMissingDays tz acts sbd lastClosed today)) a d \<noteq> Some Null"
    using entry_closeMissingDays[of tz acts sbd lastClosed today a d] by auto
qed

lemma statusByDate_onForeground:
  "statusByDate (onForeground tz newToday st)
     = statusByDate (closeMissingDays tz (activities st) (statusByDate st) (lastClosedISO st) newToday)"
  by (simp add: onForeground_def Let_def)

section \<open>The monthly series\<close>

lemma length_arrayFrom: "length (arrayFrom (Some k) f) = nat k"
  by (simp add: arrayFrom_def)

lemma nth_arrayFrom: "i < nat k \<Longrightarrow> arrayFrom (Some k) f ! i = f (int i)"
  by (simp add: arrayFrom_def)

lemma countDone_card:
  "distinct ids \<Longrightarrow> countDone sbd ids d = int (card {a \<in> set ids. entry sbd a d = Some Done})"
proof -
  assume "distinct ids"
  then have "length (filter (\<lambda>i. entry sbd i d = Some Done) ids)
      = card ({x. entry sbd x d = Some Done} \<inter> set ids)"
    by (rule distinct_length_filter)
  moreover have "{x. entry sbd x d = Some Done} \<inter> set ids = {a \<in> set ids. entry sbd a d = Some Done}"
    by auto
  ultimately show ?thesis by (simp add: countDone_def)
qed

lemma countDone_superset:
  assumes "distinct ids" "distinct keys" "set keys \<subseteq> set ids"
    and "\<forall>a. a \<notin> set keys \<longrightarrow> entry sbd a d \<noteq> Some Done"
  shows "countDone sbd ids d = countDone sbd keys d"
proof -
  have "{a \<in> set ids. entry sbd a d = Some Done} = {a \<in> set keys. entry sbd a d = Some Done}"
    using assms(3,4) by auto
  then show ?thesis using assms(1,2) by (simp add: countDone_card)
qed

lemma data_buildMonthlySeries:
  "data (buildMonthlySeries tz year month sbd today) =
     arrayFrom (daysInMonth tz year month)
       (\<lambda>i. if dateGreater tz (newDate tz (Num (of_int year)) (Num (of_int month)) (Num (of_int (i + 1))))
                   (parseISO tz today)
            then None
            else Some (countDone sbd (map fst sbd)
                  (toISODate (newDate tz (Num (of_int year)) (Num (of_int month)) (Num (of_int (i + 1)))))))"
  unfolding buildMonthlySeries_def Let_def by (simp del: of_int_add)

lemma nth_data_buildMonthlySeries:
  assumes "i < length (data (buildMonthlySeries tz year month sbd today))"
  shows "data (buildMonthlySeries tz year month sbd today) ! i =
     (if dateGreater tz (newDate tz (Num (of_int year)) (Num (of_int month)) (Num (of_int (int i + 1))))
           (parseISO tz today)
      then None
      else Some (countDone sbd (map fst sbd)
            (toISODate (newDate tz (Num (of_int year)) (Num (of_int month)) (Num (of_int (int i + 1)))))))"
proof (cases "daysInMonth tz year month")
  case None
  then show ?thesis using assms by (simp add: data_buildMonthlySeries arrayFrom_def)
next
  case (Some k)
  then have "i < nat k" using assms by (simp add: data_buildMonthlySeries length_arrayFrom)
  then show ?thesis
    unfolding data_buildMonthlySeries Some by (simp only: nth_arrayFrom)
qed

lemma data_buildMonthlySeriesOfList:
  "data (buildMonthlySeriesOfList tz year month acts sbd today) =
     arrayFrom (daysInMonth tz year month)
       (\<lambda>i. if dateGreater tz (newDate tz (Num (of_int year)) (Num (of_int month)) (Num (of_int (i + 1))))
                   (parseISO tz today)
            then None
            else Some (countDone sbd (map id' acts)
                  (toISODate (newDate tz (Num (of_int year)) (Num (of_int month)) (Num (of_int (i + 1)))))))"
  unfolding buildMonthlySeriesOfList_def Let_def by (simp del: of_int_add)

lemma length_data_buildMonthlySeriesOfList:
  "length (data (buildMonthlySeriesOfList tz year month acts sbd today))
     = length (data (buildMonthlySeries tz year month sbd today))"
  by (simp add: data_buildMonthlySeriesOfList data_buildMonthlySeries arrayFrom_def split: option.splits)

lemma nth_data_buildMonthlySeriesOfList:
  assumes "i < length (data (buildMonthlySeries tz year month sbd today))"
  shows "data (buildMonthlySeriesOfList tz year month acts sbd today) ! i =
     (if dateGreater tz (newDate tz (Num (of_int year)) (Num (of_int month)) (Num (of_int (int i + 1))))
           (parseISO tz today)
      then None
      else Some (countDone sbd (map id' acts)
            (toISODate (newDate tz (Num (of_int year)) (Num (of_int month)) (Num (of_int (int i + 1)))))))"
proof (cases "daysInMonth tz year month")
  case None
  then show ?thesis using assms by (simp add: data_buildMonthlySeries arrayFrom_def)
next
  case (Some k)
  then have "i < nat k" using assms by (simp add: data_buildMonthlySeries length_arrayFrom)
  then show ?thesis
    unfolding data_buildMonthlySeriesOfList Some by (simp only: nth_arrayFrom)
qed

lemma countDone_listed:
  "countDone sbd (map id' acts) d
     = int (length (filter (\<lambda>a. entry sbd (id' a) d = Some Done) acts))"
  by (simp add: countDone_def filter_map comp_def)

text \<open>
  The earlier copy of the screen, which has no way to delete an activity, counts over
  the activity list it is given. Its series is the same whenever the identifiers of the
  list are distinct and every key of the snapshot is the identifier of a listed activity.
\<close>

lemma buildMonthlySeriesOfList_eq:
  assumes "distinct (map id' acts)" "distinct (map fst sbd)" "fst ` set sbd \<subseteq> id' ` set acts"
  shows "buildMonthlySeriesOfList tz year month acts sbd today = buildMonthlySeries tz year month sbd today"
proof -
  have eq: "countDone sbd (map id' acts) d = countDone sbd (map fst sbd) d" for d
    using assms by (intro countDone_superset) (auto simp add: entry_not_key)
  show ?thesis
    by (simp add: buildMonthlySeriesOfList_def buildMonthlySeries_def Let_def eq cong: if_cong)
qed

section \<open>Example days\<close>

lemmas calendar_eval =
  YearFromDay_def DayFromYear_def MonthFromDay_def DateFromDay_def DayWithinYear_def
  InLeapYear_def monthStart_def Let_def

lemmas text_eval =
  toISODate_LocalDay NumberToString_def pad2_def padStart0_def decimalDigits.simps

lemmas number_eval =
  StringToNumber_def trimString_def isStrWhiteSpaceChar_def NonDecimalIntegerLiteral_def
  StrDecimalLiteral_def StrUnsignedDecimalLiteral_def isDecimalDigit_def ExponentPart_def
  digitsValue_def digitValue_def lowerHex_def scale10_def isRadixDigits_def negate_def Let_def

lemma january_2024:
  "toISODate (LocalDay 19723) = ''2024-01-01''" "YearFromDay 19723 = 2024"
  "toISODate (LocalDay 19724) = ''2024-01-02''" "YearFromDay 19724 = 2024"
  "toISODate (LocalDay 19725) = ''2024-01-03''" "YearFromDay 19725 = 2024"
  "toISODate (LocalDay 19726) = ''2024-01-04''" "YearFromDay 19726 = 2024"
  "toISODate (LocalDay 19727) = ''2024-01-05''" "YearFromDay 19727 = 2024"
  by (simp_all add: calendar_eval text_eval)

lemma february_2024:
  "toISODate (LocalDay 19755) = ''2024-02-02''" "YearFromDay 19755 = 2024"
  "toISODate (LocalDay 19757) = ''2024-02-04''" "YearFromDay 19757 = 2024"
  "toISODate (LocalDay 19758) = ''2024-02-05''" "YearFromDay 19758 = 2024"
  by (simp_all add: calendar_eval text_eval)

lemma spring_2024:
  "toISODate (LocalDay 19812) = ''2024-03-30''" "YearFromDay 19812 = 2024"
  "toISODate (LocalDay 19815) = ''2024-04-02''" "YearFromDay 19815 = 2024"
  by (simp_all add: calendar_eval text_eval)

lemma dayId_january_2024:
  "isDayId madrid ''2024-01-01''" "parseISO madrid ''2024-01-01'' = LocalDay 19723"
  "isDayId madrid ''2024-01-02''" "parseISO madrid ''2024-01-02'' = LocalDay 19724"
  "isDayId madrid ''2024-01-03''" "parseISO madrid ''2024-01-03'' = LocalDay 19725"
  "isDayId madrid ''2024-01-04''" "parseISO madrid ''2024-01-04'' = LocalDay 19726"
  "isDayId madrid ''2024-01-05''" "parseISO madrid ''2024-01-05'' = LocalDay 19727"
  using isDayId_toISODate[OF dstZone_madrid, of 19723] isDayId_toISODate[OF dstZone_madrid, of 19724]
    isDayId_toISODate[OF dstZone_madrid, of 19725] isDayId_toISODate[OF dstZone_madrid, of 19726]
    isDayId_toISODate[OF dstZone_madrid, of 19727]
  by (simp_all add: january_2024)

lemma dayId_february_2024:
  "isDayId madrid ''2024-02-04''" "parseISO madrid ''2024-02-04'' = LocalDay 19757"
  using isDayId_toISODate[OF dstZone_madrid, of 19757]
  by (simp_all add: february_2024)

lemma dayId_spring_2024:
  "isDayId madrid ''2024-03-30''" "parseISO madrid ''2024-03-30'' = LocalDay 19812"
  "isDayId madrid ''2024-04-02''" "parseISO madrid ''2024-04-02'' = LocalDay 19815"
  using isDayId_toISODate[OF dstZone_madrid, of 19812] isDayId_toISODate[OF dstZone_madrid, of 19815]
  by (simp_all add: spring_2024)

lemma february_2024_days:
  "MakeDay (MakeFullYear 2024) 1 2 = 19755" "MakeDay (MakeFullYear 2024) 1 5 = 19758"
  "monthLength 1 (InLeapYear (MakeFullYear 2024)) = 29"
  by (simp_all add: MakeDay_def MakeFullYear_def monthLength_def calendar_eval)

lemma wellFormed_examples:
  "specWellFormed ''2024-03-30''" "specYear ''2024-03-30'' = 2024"
  "specWellFormed ''2024-04-02''" "specYear ''2024-04-02'' = 2024"
  "specWellFormed ''0099-12-31''" "specYear ''0099-12-31'' = 99"
  "specMonth ''0099-12-31'' = 12" "specDate ''0099-12-31'' = 31"
  "specWellFormed ''0100-01-01''" "specYear ''0100-01-01'' = 100"
  "specMonth ''0100-01-01'' = 1" "specDate ''0100-01-01'' = 1"
  by (simp_all add: specWellFormed_def specYear_def specMonth_def specDate_def isDecimalDigit_def
      digitsValue_def digitValue_def lowerHex_def monthLength_def monthStart_def InLeapYear_def Let_def)

section \<open>The day-closure engine\<close>

text \<open>
  C1. Between two day identifiers with a positive day difference, every activity of the
  list has, for every day strictly between \<open>lastClosed\<close> and today, a property in the
  returned snapshot: the mark it had, or \<^verbatim>\<open>"missed"\<close> when it had none. The property of a
  day identifier that is today or later is what it was: nothing is written for it.
\<close>

theorem closeMissingDays_backfill:
  assumes "dstZone tz" "isDayId tz lc" "isDayId tz today"
    and "parseISO tz lc = LocalDay l" "parseISO tz today = LocalDay t"
    and "diffDays tz lc today = Some days" "0 < days"
  shows "(\<forall>n a. l < n \<and> n < t \<and> a \<in> set acts \<longrightarrow>
            entry (statusByDate (closeMissingDays tz acts sbd (Some lc) today)) (id' a)
                (toISODate (LocalDay n))
              = Some (if getStatus sbd (id' a) (toISODate (LocalDay n)) = Null then Missed
                      else getStatus sbd (id' a) (toISODate (LocalDay n))))
       \<and> (\<forall>a d n. isDayId tz d \<and> parseISO tz d = LocalDay n \<and> t \<le> n \<longrightarrow>
            entry (statusByDate (closeMissingDays tz acts sbd (Some lc) today)) a d = entry sbd a d)"
  using closeMissingDays_marks_between[OF assms(1,2,3,4,5)]
    closeMissingDays_from_today[OF assms(1,2,3,4,5)]
  by blast

theorem closeMissingDays_backfill_witness:
  "entry (statusByDate (closeMissingDays madrid [\<lparr>id' = ''X'', name = ''Leer''\<rparr>]
        [(''X'', [(''2024-01-02'', Done)])] (Some ''2024-01-01'') ''2024-01-04'')) ''X'' ''2024-01-03''
     = Some Missed
   \<and> entry (statusByDate (closeMissingDays madrid [\<lparr>id' = ''X'', name = ''Leer''\<rparr>]
        [(''X'', [(''2024-01-02'', Done)])] (Some ''2024-01-01'') ''2024-01-04'')) ''X'' ''2024-01-02''
     = Some Done
   \<and> entry (statusByDate (closeMissingDays madrid [\<lparr>id' = ''X'', name = ''Leer''\<rparr>]
        [(''X'', [(''2024-01-02'', Done)])] (Some ''2024-01-01'') ''2024-01-04'')) ''X'' ''2024-01-04''
     = None"
proof -
  let ?acts = "[\<lparr>id' = ''X'', name = ''Leer''\<rparr>]" and ?sbd = "[(''X'', [(''2024-01-02'', Done)])]"
  have d: "diffDays madrid ''2024-01-01'' ''2024-01-04'' = Some 3"
    using diffDays_LocalDay[of madrid "''2024-01-01''" 19723 "''2024-01-04''" 19726]
    by (simp add: dayId_january_2024 madrid_def)
  note b = closeMissingDays_backfill[OF dstZone_madrid dayId_january_2024(1) dayId_january_2024(7)
      dayId_january_2024(2) dayId_january_2024(8) d, of ?acts ?sbd]
  have 1: "entry (statusByDate (closeMissingDays madrid ?acts ?sbd (Some ''2024-01-01'') ''2024-01-04''))
      ''X'' (toISODate (LocalDay 19725)) = Some Missed"
    using b[THEN conjunct1, rule_format, of 19725 "\<lparr>id' = ''X'', name = ''Leer''\<rparr>"]
    by (simp add: january_2024 getStatus_def)
  have 2: "entry (statusByDate (closeMissingDays madrid ?acts ?sbd (Some ''2024-01-01'') ''2024-01-04''))
      ''X'' (toISODate (LocalDay 19724)) = Some Done"
    using b[THEN conjunct1, rule_format, of 19724 "\<lparr>id' = ''X'', name = ''Leer''\<rparr>"]
    by (simp add: january_2024 getStatus_def)
  have 3: "entry (statusByDate (closeMissingDays madrid ?acts ?sbd (Some ''2024-01-01'') ''2024-01-04''))
      ''X'' ''2024-01-04'' = entry ?sbd ''X'' ''2024-01-04''"
    using b[THEN conjunct2, rule_format, where d = "''2024-01-04''" and n = 19726 and a = "''X''"]
      dayId_january_2024(7,8) by simp
  show ?thesis using 1 2 3 by (simp add: january_2024 entry_def)
qed

text \<open>
  C2. Closing the missing days a second time, from the snapshot and the cursor that a
  first call returned and with the same activities and the same today, returns that
  snapshot and that cursor again.
\<close>

theorem closeMissingDays_idempotent:
  "closeMissingDays tz acts
     (statusByDate (closeMissingDays tz acts sbd lastClosed today))
     (Some (lastClosedISO (closeMissingDays tz acts sbd lastClosed today))) today
   = closeMissingDays tz acts sbd lastClosed today"
proof -
  let ?r = "closeMissingDays tz acts sbd lastClosed today"
  consider
      (unchanged) lc where "lastClosed = Some lc" "?r = \<lparr>statusByDate = sbd, lastClosedISO = lc\<rparr>"
    | (today) s where "?r = \<lparr>statusByDate = s, lastClosedISO = today\<rparr>"
  proof (cases lastClosed)
    case None
    then have "?r = \<lparr>statusByDate = sbd, lastClosedISO = today\<rparr>"
      by (simp add: closeMissingDays_def)
    then show ?thesis by (rule today)
  next
    case (Some lc)
    show ?thesis
    proof (cases "lc \<noteq> [] \<and> (\<exists>days. diffDays tz lc today = Some days \<and> days \<le> 0)")
      case True
      then have "?r = \<lparr>statusByDate = sbd, lastClosedISO = lc\<rparr>"
        using Some by (auto simp add: closeMissingDays_def)
      with Some show ?thesis by (rule unchanged)
    next
      case False
      then have "\<exists>s. ?r = \<lparr>statusByDate = s, lastClosedISO = today\<rparr>"
        using Some by (auto simp add: closeMissingDays_def split: option.splits)
      then show ?thesis using today by blast
    qed
  qed
  then show ?thesis
  proof cases
    case unchanged
    then have "closeMissingDays tz acts sbd (Some lc) today = \<lparr>statusByDate = sbd, lastClosedISO = lc\<rparr>"
      by simp
    then show ?thesis by (simp add: unchanged(1))
  next
    case today
    show ?thesis unfolding today by (simp add: closeMissingDays_at_today)
  qed
qed

theorem closeMissingDays_idempotent_witness:
  "closeMissingDays madrid [\<lparr>id' = ''X'', name = ''Leer''\<rparr>]
     (statusByDate (closeMissingDays madrid [\<lparr>id' = ''X'', name = ''Leer''\<rparr>] []
        (Some ''2024-01-01'') ''2024-01-04''))
     (Some (lastClosedISO (closeMissingDays madrid [\<lparr>id' = ''X'', name = ''Leer''\<rparr>] []
        (Some ''2024-01-01'') ''2024-01-04''))) ''2024-01-04''
   = closeMissingDays madrid [\<lparr>id' = ''X'', name = ''Leer''\<rparr>] [] (Some ''2024-01-01'') ''2024-01-04''"
  by (rule closeMissingDays_idempotent)

text \<open>
  C3 (amended). \<^verbatim>\<open>closeMissingDays\<close> never changes a stored mark: a key whose value is
  \<^verbatim>\<open>"done"\<close> or \<^verbatim>\<open>"missed"\<close> in the input snapshot has the same value in the returned
  snapshot, for every day, cursor, today and time zone. (A key whose stored value is
  \<^verbatim>\<open>null\<close> is read as unmarked.)
\<close>

theorem closeMissingDays_keeps_marks:
  "entry sbd a d = Some v \<and> v \<noteq> Null \<longrightarrow>
     entry (statusByDate (closeMissingDays tz acts sbd lastClosed today)) a d = Some v"
proof
  assume h: "entry sbd a d = Some v \<and> v \<noteq> Null"
  then have "getStatus sbd a d \<noteq> Null" by (simp add: getStatus_entry)
  then show "entry (statusByDate (closeMissingDays tz acts sbd lastClosed today)) a d = Some v"
    using entry_closeMissingDays[of tz acts sbd lastClosed today a d] h by auto
qed

theorem closeMissingDays_keeps_marks_witness:
  "entry [(''X'', [(''2024-01-02'', Done)])] ''X'' ''2024-01-02'' = Some Done
   \<and> entry (statusByDate (closeMissingDays madrid [\<lparr>id' = ''X'', name = ''Leer''\<rparr>]
        [(''X'', [(''2024-01-02'', Done)])] (Some ''2024-01-01'') ''2024-01-04'')) ''X'' ''2024-01-02''
      = Some Done"
proof -
  have e: "entry [(''X'', [(''2024-01-02'', Done)])] ''X'' ''2024-01-02'' = Some Done"
    by (simp add: entry_def)
  then show ?thesis
    using closeMissingDays_keeps_marks[of "[(''X'', [(''2024-01-02'', Done)])]" "''X''"
        "''2024-01-02''" Done madrid "[\<lparr>id' = ''X'', name = ''Leer''\<rparr>]" "Some ''2024-01-01''"
        "''2024-01-04''"]
    by simp
qed

text \<open>
  C3 as stated: every key of the input snapshot keeps its value. A key whose stored value
  is \<^verbatim>\<open>null\<close> does not: it is overwritten with \<^verbatim>\<open>"missed"\<close>.
\<close>

theorem closeMissingDays_keeps_keys_counterexample:
  "entry [(''Y'', [(''2024-01-02'', Null)])] ''Y'' ''2024-01-02'' = Some Null
   \<and> entry (statusByDate (closeMissingDays madrid [\<lparr>id' = ''Y'', name = ''Correr''\<rparr>]
        [(''Y'', [(''2024-01-02'', Null)])] (Some ''2024-01-01'') ''2024-01-03'')) ''Y'' ''2024-01-02''
      = Some Missed"
proof -
  let ?acts = "[\<lparr>id' = ''Y'', name = ''Correr''\<rparr>]" and ?sbd = "[(''Y'', [(''2024-01-02'', Null)])]"
  have "entry (statusByDate (closeMissingDays madrid ?acts ?sbd (Some ''2024-01-01'') ''2024-01-03''))
      ''Y'' (toISODate (LocalDay 19724)) = Some Missed"
    using closeMissingDays_marks_between[OF dstZone_madrid dayId_january_2024(1) dayId_january_2024(5)
      dayId_january_2024(2) dayId_january_2024(6), of 19724 "\<lparr>id' = ''Y'', name = ''Correr''\<rparr>"
      ?acts ?sbd]
    by (simp add: january_2024 getStatus_def)
  then show ?thesis by (simp add: january_2024 entry_def)
qed

text \<open>
  C4 (amended). Without a cursor (\<^verbatim>\<open>null\<close>, or the empty string, which \<^verbatim>\<open>!lastClosedISO\<close>
  treats alike) the snapshot is returned as it is and the cursor is today. When the day
  difference is zero or negative, snapshot and cursor are returned unchanged; when it is
  positive the cursor is today. For day identifiers the returned cursor is therefore the
  later of \<open>lastClosed\<close> and today: it is not after today exactly when \<open>lastClosed\<close> was
  not after today.
\<close>

theorem closeMissingDays_cursor:
  "closeMissingDays tz acts sbd None today = \<lparr>statusByDate = sbd, lastClosedISO = today\<rparr>
   \<and> closeMissingDays tz acts sbd (Some []) today = \<lparr>statusByDate = sbd, lastClosedISO = today\<rparr>
   \<and> (diffDays tz lc today = Some days \<and> days \<le> 0 \<longrightarrow>
        closeMissingDays tz acts sbd (Some lc) today = \<lparr>statusByDate = sbd, lastClosedISO = lc\<rparr>)
   \<and> (diffDays tz lc today = Some days \<and> 0 < days \<longrightarrow>
        lastClosedISO (closeMissingDays tz acts sbd (Some lc) today) = today)
   \<and> (dstZone tz \<and> isDayId tz lc \<and> isDayId tz today \<longrightarrow>
        lastClosedISO (closeMissingDays tz acts sbd (Some lc) today)
          = (if dayLe tz lc today then today else lc))"
proof (intro conjI impI)
  show "closeMissingDays tz acts sbd None today = \<lparr>statusByDate = sbd, lastClosedISO = today\<rparr>"
    by (simp add: closeMissingDays_def)
  show "closeMissingDays tz acts sbd (Some []) today = \<lparr>statusByDate = sbd, lastClosedISO = today\<rparr>"
    by (simp add: closeMissingDays_def)
next
  assume h: "diffDays tz lc today = Some days \<and> days \<le> 0"
  then have "lc \<noteq> []" using diffDays_empty[of tz today] by auto
  with h show "closeMissingDays tz acts sbd (Some lc) today = \<lparr>statusByDate = sbd, lastClosedISO = lc\<rparr>"
    by (simp add: closeMissingDays_def)
next
  assume h: "diffDays tz lc today = Some days \<and> 0 < days"
  then have "lc \<noteq> []" using diffDays_empty[of tz today] by auto
  with h show "lastClosedISO (closeMissingDays tz acts sbd (Some lc) today) = today"
    by (simp add: closeMissingDays_def)
next
  assume h: "dstZone tz \<and> isDayId tz lc \<and> isDayId tz today"
  then obtain l where l: "parseISO tz lc = LocalDay l" by (auto elim: isDayId_D)
  from h obtain t where t: "parseISO tz today = LocalDay t" by (auto elim: isDayId_D)
  have "\<bar>tz l - tz t\<bar> < 43200000" using h by (simp add: dstZone_def)
  then have d: "diffDays tz lc today = Some (t - l)" using l t by (intro diffDays_LocalDay)
  then have ne: "lc \<noteq> []" using diffDays_empty[of tz today] by auto
  have le: "dayLe tz lc today = (l \<le> t)" by (simp add: dayLe_def l t)
  show "lastClosedISO (closeMissingDays tz acts sbd (Some lc) today)
          = (if dayLe tz lc today then today else lc)"
  proof (cases "t - l \<le> 0")
    case True
    then have c: "lastClosedISO (closeMissingDays tz acts sbd (Some lc) today) = lc"
      using d ne by (simp add: closeMissingDays_def)
    show ?thesis
    proof (cases "l = t")
      case True
      then have "toISODate (LocalDay l) = toISODate (LocalDay t)" by simp
      moreover have "toISODate (LocalDay l) = lc" using h l by (auto elim: isDayId_D)
      moreover have "toISODate (LocalDay t) = today" using h t by (auto elim: isDayId_D)
      ultimately show ?thesis using c le True by simp
    next
      case False
      then show ?thesis using c le True by simp
    qed
  next
    case False
    then show ?thesis using d ne le by (simp add: closeMissingDays_def)
  qed
qed

theorem closeMissingDays_cursor_witness:
  "closeMissingDays madrid [] [] (Some ''2024-01-04'') ''2024-01-04''
     = \<lparr>statusByDate = [], lastClosedISO = ''2024-01-04''\<rparr>
   \<and> lastClosedISO (closeMissingDays madrid [] [] (Some ''2024-01-01'') ''2024-01-04'') = ''2024-01-04''
   \<and> dayLe madrid ''2024-01-01'' ''2024-01-04''"
proof -
  have z: "diffDays madrid ''2024-01-04'' ''2024-01-04'' = Some 0"
    using diffDays_LocalDay[of madrid "''2024-01-04''" 19726 "''2024-01-04''" 19726]
    by (simp add: dayId_january_2024)
  have p: "diffDays madrid ''2024-01-01'' ''2024-01-04'' = Some 3"
    using diffDays_LocalDay[of madrid "''2024-01-01''" 19723 "''2024-01-04''" 19726]
    by (simp add: dayId_january_2024 madrid_def)
  have le: "dayLe madrid ''2024-01-01'' ''2024-01-04''"
    by (simp add: dayLe_def dayId_january_2024)
  show ?thesis
    using closeMissingDays_cursor[of madrid "[]" "[]" "''2024-01-04''" "''2024-01-04''" 0]
      closeMissingDays_cursor[of madrid "[]" "[]" "''2024-01-04''" "''2024-01-01''" 3]
      z p le dstZone_madrid dayId_january_2024
    by simp
qed

text \<open>
  C4 as stated: the returned cursor is never after today. It is, when \<open>lastClosed\<close> is
  already after today (the clock went backward): the cursor stays at \<open>lastClosed\<close>.
\<close>

theorem closeMissingDays_cursor_counterexample:
  "isDayId madrid ''2024-01-05'' \<and> isDayId madrid ''2024-01-04''
   \<and> diffDays madrid ''2024-01-05'' ''2024-01-04'' = Some (- 1)
   \<and> lastClosedISO (closeMissingDays madrid [] [] (Some ''2024-01-05'') ''2024-01-04'') = ''2024-01-05''
   \<and> \<not> dayLe madrid
         (lastClosedISO (closeMissingDays madrid [] [] (Some ''2024-01-05'') ''2024-01-04''))
         ''2024-01-04''"
proof -
  have d: "diffDays madrid ''2024-01-05'' ''2024-01-04'' = Some (- 1)"
    using diffDays_LocalDay[of madrid "''2024-01-05''" 19727 "''2024-01-04''" 19726]
    by (simp add: dayId_january_2024 madrid_def)
  then have c: "lastClosedISO (closeMissingDays madrid [] [] (Some ''2024-01-05'') ''2024-01-04'')
      = ''2024-01-05''"
    by (simp add: closeMissingDays_def)
  show ?thesis
    by (simp add: c d dayId_january_2024 dayLe_def)
qed

section \<open>Day differences\<close>

text \<open>
  C5 (amended). For two well-formed day identifiers whose years are 0100 or later, in a
  time zone whose offsets at two local midnights differ by less than twelve hours (any
  daylight-saving change), \<^verbatim>\<open>parseISO\<close> reads each identifier as the day with that year,
  month and day of the month, and \<^verbatim>\<open>diffDays\<close> is the signed number of calendar days from
  the first to the second: the difference of the two day numbers, positive exactly when
  the second day is later. \<^verbatim>\<open>Math.round\<close> absorbs the hour that the raw millisecond
  difference gains or loses.
\<close>

theorem diffDays_exact:
  assumes "dstZone tz" "specWellFormed a" "specWellFormed b"
    and "100 \<le> specYear a" "100 \<le> specYear b"
  shows "\<exists>m n. parseISO tz a = LocalDay m \<and> parseISO tz b = LocalDay n
       \<and> YearFromDay m = specYear a \<and> MonthFromDay m + 1 = specMonth a \<and> DateFromDay m = specDate a
       \<and> YearFromDay n = specYear b \<and> MonthFromDay n + 1 = specMonth b \<and> DateFromDay n = specDate b
       \<and> diffDays tz a b = Some (n - m)
       \<and> (0 < n - m \<longleftrightarrow> m < n)"
proof -
  let ?m = "MakeDay (specYear a) (specMonth a - 1) (specDate a)"
  let ?n = "MakeDay (specYear b) (specMonth b - 1) (specDate b)"
  note fa = specWellFormed_fields[OF assms(2)] and fb = specWellFormed_fields[OF assms(3)]
  have pa: "parseISO tz a = LocalDay ?m"
    using parseISO_specWellFormed[OF assms(1,2)] assms(4) by (simp add: MakeFullYear_def)
  have pb: "parseISO tz b = LocalDay ?n"
    using parseISO_specWellFormed[OF assms(1,3)] assms(5) by (simp add: MakeFullYear_def)
  have ca: "YearFromDay ?m = specYear a" "MonthFromDay ?m = specMonth a - 1" "DateFromDay ?m = specDate a"
    using fa by (simp_all add: fields_MakeDay)
  have cb: "YearFromDay ?n = specYear b" "MonthFromDay ?n = specMonth b - 1" "DateFromDay ?n = specDate b"
    using fb by (simp_all add: fields_MakeDay)
  have "\<bar>tz ?m - tz ?n\<bar> < 43200000" using assms(1) by (simp add: dstZone_def)
  then have "diffDays tz a b = Some (?n - ?m)" using pa pb by (intro diffDays_LocalDay)
  then show ?thesis using pa pb ca cb by simp
qed

text \<open>From 30 March to 2 April 2024 in Madrid, across the change to summer time: the two
  midnights are 71 hours apart, and the difference is 3 days.\<close>

theorem diffDays_exact_witness:
  "timeValue madrid 19815 - timeValue madrid 19812 = 71 * 3600000
   \<and> parseISO madrid ''2024-03-30'' = LocalDay 19812
   \<and> parseISO madrid ''2024-04-02'' = LocalDay 19815
   \<and> diffDays madrid ''2024-03-30'' ''2024-04-02'' = Some 3"
  using diffDays_exact[OF dstZone_madrid wellFormed_examples(1) wellFormed_examples(3)]
    dayId_spring_2024(2) dayId_spring_2024(4)
  by (auto simp add: wellFormed_examples timeValue_def madrid_def msPerDay_def)

text \<open>
  C5 as stated, for every pair of valid day identifiers: from 31 December 0099 to
  1 January 0100 there is one day. \<^verbatim>\<open>new Date(y, m, d)\<close> reads a year from 0 to 99 as
  \<open>1900 + y\<close>, so the first identifier decodes to 31 December 1999 and the difference is
  -693959 days.
\<close>

theorem diffDays_two_digit_year_counterexample:
  "specWellFormed ''0099-12-31'' \<and> specWellFormed ''0100-01-01''
   \<and> parseISO madrid ''0099-12-31'' = LocalDay 10956
   \<and> toISODate (LocalDay 10956) = ''1999-12-31''
   \<and> parseISO madrid ''0100-01-01'' = LocalDay (- 683003)
   \<and> diffDays madrid ''0099-12-31'' ''0100-01-01'' = Some (- 693959)"
proof -
  have a: "parseISO madrid ''0099-12-31'' = LocalDay 10956"
    using parseISO_specWellFormed[OF dstZone_madrid wellFormed_examples(5)]
    by (simp add: wellFormed_examples MakeDay_def MakeFullYear_def calendar_eval)
  have b: "parseISO madrid ''0100-01-01'' = LocalDay (- 683003)"
    using parseISO_specWellFormed[OF dstZone_madrid wellFormed_examples(9)]
    by (simp add: wellFormed_examples MakeDay_def MakeFullYear_def calendar_eval)
  have t: "toISODate (LocalDay 10956) = ''1999-12-31''"
    by (simp add: calendar_eval text_eval)
  have "\<bar>madrid 10956 - madrid (- 683003)\<bar> < 43200000" by (simp add: madrid_def)
  then have "diffDays madrid ''0099-12-31'' ''0100-01-01'' = Some (- 683003 - 10956)"
    using a b by (intro diffDays_LocalDay)
  then show ?thesis using a b t wellFormed_examples(5,9) by simp
qed

section \<open>The series of a month\<close>

text \<open>
  C6 (amended). In \<^verbatim>\<open>src/unnamed/part_000\<close> the value of the monthly series for a day that
  is not after today is the number of activity identifiers in the snapshot whose stored
  value for that day is \<^verbatim>\<open>"done"\<close>: every key of the snapshot counts, whether or not an
  activity of the list still has that identifier; that series does not depend on the
  activity list, so deleting an activity leaves every value of it as it was. In
  \<^verbatim>\<open>src/app/(tabs)/index.tsx\<close> (\<open>buildMonthlySeriesOfList\<close>) the value is the number of
  activities of the list whose stored value for that day is \<^verbatim>\<open>"done"\<close>, one for each
  place in the list: an identifier of the snapshot that no listed activity has is not
  counted.
\<close>

theorem buildMonthlySeries_counts:
  assumes "distinct (map fst (statusByDate st))"
    and "i < length (data (buildMonthlySeries tz year month (statusByDate st) (todayISO st)))"
    and "d = newDate tz (Num (of_int year)) (Num (of_int month)) (Num (of_int (int i + 1)))"
  shows "data (buildMonthlySeries tz year month (statusByDate st) (todayISO st)) ! i
           = (if dateGreater tz d (parseISO tz (todayISO st)) then None
              else Some (int (card {a \<in> fst ` set (statusByDate st).
                                      entry (statusByDate st) a (toISODate d) = Some Done})))
       \<and> buildMonthlySeries tz year month (statusByDate (deleteActivity x st))
              (todayISO (deleteActivity x st))
           = buildMonthlySeries tz year month (statusByDate st) (todayISO st)
       \<and> data (buildMonthlySeriesOfList tz year month (activities st) (statusByDate st) (todayISO st)) ! i
           = (if dateGreater tz d (parseISO tz (todayISO st)) then None
              else Some (int (length (filter
                     (\<lambda>a. entry (statusByDate st) (id' a) (toISODate d) = Some Done)
                     (activities st)))))"
proof -
  have "countDone (statusByDate st) (map fst (statusByDate st)) (toISODate d)
      = int (card {a \<in> set (map fst (statusByDate st)).
                     entry (statusByDate st) a (toISODate d) = Some Done})"
    using assms(1) by (rule countDone_card)
  then show ?thesis
    using nth_data_buildMonthlySeries[OF assms(2)]
      nth_data_buildMonthlySeriesOfList[OF assms(2), of "activities st"] assms(3)
    by (simp add: deleteActivity_def countDone_listed)
qed

text \<open>Activity \<open>X\<close> was deleted after two days done in February 2024; the series of
  \<^verbatim>\<open>part_000\<close> still counts it, the series of \<^verbatim>\<open>index.tsx\<close> does not.\<close>

theorem buildMonthlySeries_counts_witness:
  "data (buildMonthlySeries madrid 2024 1
           (statusByDate \<lparr>statusByDate = [(''X'', [(''2024-02-02'', Done), (''2024-02-03'', Done)])],
              lastClosedISO = Some ''2024-02-04'', activities = [], todayISO = ''2024-02-04''\<rparr>)
           ''2024-02-04'') ! 1 = Some 1
   \<and> data (buildMonthlySeriesOfList madrid 2024 1 []
           [(''X'', [(''2024-02-02'', Done), (''2024-02-03'', Done)])] ''2024-02-04'') ! 1 = Some 0"
proof -
  let ?st = "\<lparr>statusByDate = [(''X'', [(''2024-02-02'', Done), (''2024-02-03'', Done)])],
              lastClosedISO = Some ''2024-02-04'', activities = [], todayISO = ''2024-02-04''\<rparr>"
  have len: "length (data (buildMonthlySeries madrid 2024 1 (statusByDate ?st) (todayISO ?st))) = 29"
    using daysInMonth_monthLength[OF dstZone_madrid, of 2024 1]
    by (simp add: data_buildMonthlySeries length_arrayFrom february_2024_days)
  have d: "newDate madrid (Num 2024) (Num 1) (Num 2) = LocalDay 19755"
    using newDate_int[of madrid 2024 1 2] makeDate_valid[OF dstZone_madrid, of 19755]
    by (simp add: february_2024_days)
  have c: "{a. a = ''X'' \<and> entry [(''X'', [(''2024-02-02'', Done), (''2024-02-03'', Done)])] a
              ''2024-02-02'' = Some Done} = {''X''}"
    by (auto simp add: entry_def)
  have g: "\<not> dateGreater madrid (LocalDay 19755) (LocalDay 19757)"
    by (simp add: dateGreater_LocalDay[OF dstZone_madrid])
  show ?thesis
    using buildMonthlySeries_counts[of ?st 1 madrid 2024 1
        "newDate madrid (Num (of_int 2024)) (Num (of_int 1)) (Num (of_int (int 1 + 1)))"] len g
    by (simp add: d c dayId_february_2024 february_2024)
qed

text \<open>
  C6 as stated, for the function of \<^verbatim>\<open>src/app/(tabs)/index.tsx\<close>: identifier \<open>X\<close> is in
  the snapshot with \<^verbatim>\<open>"done"\<close> on 2 February 2024. With \<open>X\<close> in the activity list the
  value for that day is 1; with \<open>X\<close> no longer in the list the identifier is orphaned and
  the value is 0, where the claim counts it.
\<close>

theorem buildMonthlySeries_orphan_counterexample:
  "entry [(''X'', [(''2024-02-02'', Done), (''2024-02-03'', Done)])] ''X'' ''2024-02-02'' = Some Done
   \<and> data (buildMonthlySeriesOfList madrid 2024 1 [\<lparr>id' = ''X'', name = ''Leer''\<rparr>]
           [(''X'', [(''2024-02-02'', Done), (''2024-02-03'', Done)])] ''2024-02-04'') ! 1 = Some 1
   \<and> data (buildMonthlySeriesOfList madrid 2024 1 []
           [(''X'', [(''2024-02-02'', Done), (''2024-02-03'', Done)])] ''2024-02-04'') ! 1 = Some 0"
proof -
  let ?sbd = "[(''X'', [(''2024-02-02'', Done), (''2024-02-03'', Done)])]"
  have len: "1 < length (data (buildMonthlySeries madrid 2024 1 ?sbd ''2024-02-04''))"
    using daysInMonth_monthLength[OF dstZone_madrid, of 2024 1]
    by (simp add: data_buildMonthlySeries length_arrayFrom february_2024_days)
  have d: "newDate madrid (Num 2024) (Num 1) (Num 2) = LocalDay 19755"
    using newDate_int[of madrid 2024 1 2] makeDate_valid[OF dstZone_madrid, of 19755]
    by (simp add: february_2024_days)
  have g: "\<not> dateGreater madrid (LocalDay 19755) (LocalDay 19757)"
    by (simp add: dateGreater_LocalDay[OF dstZone_madrid])
  have e: "entry ?sbd ''X'' ''2024-02-02'' = Some Done" by (simp add: entry_def)
  show ?thesis
    using nth_data_buildMonthlySeriesOfList[OF len, of "[\<lparr>id' = ''X'', name = ''Leer''\<rparr>]"]
      nth_data_buildMonthlySeriesOfList[OF len, of "[]"] g e
    by (simp add: d dayId_february_2024 february_2024 countDone_def)
qed

text \<open>
  C7. For a year within 198000 years of year 0 and a month index from 0 to 11, in a time
  zone with daylight saving and with today a day identifier: labels and values have the
  length \<^verbatim>\<open>daysInMonth(year, monthIndex0)\<close>, which is the length of that month; the entry
  at index \<open>i\<close> belongs to day \<open>i + 1\<close> of that month, and it is \<^verbatim>\<open>null\<close> when that day is
  after today and a count that is not negative when it is today or earlier.
\<close>

theorem buildMonthlySeries_shape:
  assumes "dstZone tz" "isDayId tz today" "parseISO tz today = LocalDay t"
    and "\<bar>year\<bar> \<le> 198000" "0 \<le> month" "month \<le> 11"
    and "s = buildMonthlySeries tz year month sbd today"
  shows "daysInMonth tz year month = Some (int (length (data s)))
       \<and> length (labels s) = length (data s)
       \<and> int (length (data s)) = monthLength month (InLeapYear (MakeFullYear year))
       \<and> (\<forall>i < length (data s). \<exists>n.
            newDate tz (Num (of_int year)) (Num (of_int month)) (Num (of_int (int i + 1))) = LocalDay n
            \<and> YearFromDay n = MakeFullYear year \<and> MonthFromDay n = month \<and> DateFromDay n = int i + 1
            \<and> (t < n \<longrightarrow> data s ! i = None)
            \<and> (n \<le> t \<longrightarrow> (\<exists>c. 0 \<le> c \<and> data s ! i = Some c)))"
proof -
  let ?y = "MakeFullYear year"
  let ?len = "monthLength month (InLeapYear ?y)"
  have dim: "daysInMonth tz year month = Some ?len"
    using assms(1,4,5,6) by (rule daysInMonth_monthLength)
  have len: "28 \<le> ?len" "?len \<le> 31"
    using monthLength_range[OF assms(5,6), of "InLeapYear ?y"] InLeapYear_range[of ?y] by auto
  have ld: "length (data s) = nat ?len"
    by (simp add: assms(7) data_buildMonthlySeries dim length_arrayFrom)
  have ll: "length (labels s) = nat ?len"
    by (simp add: assms(7) buildMonthlySeries_def Let_def dim length_arrayFrom)
  have each: "\<exists>n.
      newDate tz (Num (of_int year)) (Num (of_int month)) (Num (of_int (int i + 1))) = LocalDay n
      \<and> YearFromDay n = ?y \<and> MonthFromDay n = month \<and> DateFromDay n = int i + 1
      \<and> (t < n \<longrightarrow> data s ! i = None)
      \<and> (n \<le> t \<longrightarrow> (\<exists>c. 0 \<le> c \<and> data s ! i = Some c))" if i: "i < length (data s)" for i
  proof -
    let ?n = "MakeDay ?y month (int i + 1)"
    have di: "1 \<le> int i + 1" "int i + 1 \<le> ?len" using i ld by auto
    have "\<bar>?n\<bar> \<le> 99999999"
      using assms(5,6) di len MakeFullYear_abs[OF assms(4)] by (intro MakeDay_abs) auto
    then have nd: "newDate tz (Num (of_int year)) (Num (of_int month)) (Num (of_int (int i + 1))) = LocalDay ?n"
      using assms(1) newDate_int[of tz year month "int i + 1"] by (simp add: makeDate_valid)
    have f: "YearFromDay ?n = ?y" "MonthFromDay ?n = month" "DateFromDay ?n = int i + 1"
      using assms(5,6) di by (simp_all add: fields_MakeDay)
    have v: "data s ! i = (if t < ?n then None
        else Some (countDone sbd (map fst sbd) (toISODate (LocalDay ?n))))"
      using nth_data_buildMonthlySeries[of i tz year month sbd today] i
      unfolding assms(7)[symmetric] nd assms(3) dateGreater_LocalDay[OF assms(1)] by simp
    have "0 \<le> countDone sbd (map fst sbd) (toISODate (LocalDay ?n))" by (simp add: countDone_def)
    then show ?thesis using nd f v by auto
  qed
  show ?thesis using dim ld ll len each by auto
qed

theorem buildMonthlySeries_shape_witness:
  "length (data (buildMonthlySeries madrid 2024 1 [(''X'', [(''2024-02-02'', Done)])] ''2024-02-04'')) = 29
   \<and> length (labels (buildMonthlySeries madrid 2024 1 [(''X'', [(''2024-02-02'', Done)])] ''2024-02-04'')) = 29
   \<and> data (buildMonthlySeries madrid 2024 1 [(''X'', [(''2024-02-02'', Done)])] ''2024-02-04'') ! 4 = None
   \<and> (\<exists>c. 0 \<le> c \<and>
        data (buildMonthlySeries madrid 2024 1 [(''X'', [(''2024-02-02'', Done)])] ''2024-02-04'') ! 1
          = Some c)"
proof -
  let ?s = "buildMonthlySeries madrid 2024 1 [(''X'', [(''2024-02-02'', Done)])] ''2024-02-04''"
  note sh = buildMonthlySeries_shape[OF dstZone_madrid dayId_february_2024(1) dayId_february_2024(2),
      of 2024 1 ?s "[(''X'', [(''2024-02-02'', Done)])]"]
  have len: "length (data ?s) = 29" "length (labels ?s) = 29"
    using sh by (simp_all add: february_2024_days)
  have n4: "newDate madrid (Num (of_int 2024)) (Num (of_int 1)) (Num (of_int (int 4 + 1))) = LocalDay 19758"
    using newDate_int[of madrid 2024 1 5] makeDate_valid[OF dstZone_madrid, of 19758]
    by (simp add: february_2024_days)
  have n1: "newDate madrid (Num (of_int 2024)) (Num (of_int 1)) (Num (of_int (int 1 + 1))) = LocalDay 19755"
    using newDate_int[of madrid 2024 1 2] makeDate_valid[OF dstZone_madrid, of 19755]
    by (simp add: february_2024_days)
  have "4 < length (data ?s)" "1 < length (data ?s)" using len by simp_all
  then have "data ?s ! 4 = None" "\<exists>c. 0 \<le> c \<and> data ?s ! 1 = Some c"
    using sh[THEN conjunct2, THEN conjunct2, THEN conjunct2, rule_format, of 4]
      sh[THEN conjunct2, THEN conjunct2, THEN conjunct2, rule_format, of 1] n4 n1
    by auto
  then show ?thesis using len by simp
qed

section \<open>The stored values\<close>

text \<open>
  C8 (amended). Closing the missing days (on its own and on the return to the
  foreground), adding an activity and deleting one keep the invariant that no stored
  value is \<^verbatim>\<open>null\<close>. A press on today's cell keeps the key and stores \<^verbatim>\<open>"done"\<close>, or, when
  the cell was \<^verbatim>\<open>"done"\<close>, an explicit \<^verbatim>\<open>null\<close>; it changes no other property, and a press on
  a cell of another day changes nothing.
\<close>

theorem operations_on_marks:
  "(onlyMarks (statusByDate st) \<longrightarrow>
      onlyMarks (statusByDate (closeMissingDays tz acts (statusByDate st) lastClosed today))
      \<and> onlyMarks (statusByDate (onForeground tz newToday st))
      \<and> onlyMarks (statusByDate (addActivity uid newName st))
      \<and> onlyMarks (statusByDate (deleteActivity x st)))
   \<and> entry (statusByDate (onPressCell a (todayISO st) st)) a (todayISO st)
       = Some (if getStatus (statusByDate st) a (todayISO st) = Done then Null else Done)
   \<and> (\<forall>a' d'. \<not> (a' = a \<and> d' = todayISO st) \<longrightarrow>
         entry (statusByDate (onPressCell a (todayISO st) st)) a' d' = entry (statusByDate st) a' d')
   \<and> (d \<noteq> todayISO st \<longrightarrow> onPressCell a d st = st)"
proof (intro conjI impI allI)
  assume m: "onlyMarks (statusByDate st)"
  show "onlyMarks (statusByDate (closeMissingDays tz acts (statusByDate st) lastClosed today))"
    using m by (rule onlyMarks_closeMissingDays)
  show "onlyMarks (statusByDate (onForeground tz newToday st))"
    unfolding statusByDate_onForeground using m by (rule onlyMarks_closeMissingDays)
  show "onlyMarks (statusByDate (addActivity uid newName st))"
    using m by (simp add: addActivity_def Let_def)
  show "onlyMarks (statusByDate (deleteActivity x st))"
    using m by (simp add: deleteActivity_def)
next
  show "entry (statusByDate (onPressCell a (todayISO st) st)) a (todayISO st)
       = Some (if getStatus (statusByDate st) a (todayISO st) = Done then Null else Done)"
    by (simp add: onPressCell_def entry_setStatus cycleTodayStatus_def)
next
  fix a' d'
  assume "\<not> (a' = a \<and> d' = todayISO st)"
  then show "entry (statusByDate (onPressCell a (todayISO st) st)) a' d' = entry (statusByDate st) a' d'"
    by (auto simp add: onPressCell_def entry_setStatus)
next
  assume "d \<noteq> todayISO st"
  then show "onPressCell a d st = st" by (simp add: onPressCell_def)
qed

theorem operations_on_marks_witness:
  "onlyMarks [(''X'', [(''2024-01-03'', Missed)])]
   \<and> onlyMarks (statusByDate (onForeground madrid ''2024-01-05''
        \<lparr>statusByDate = [(''X'', [(''2024-01-03'', Missed)])], lastClosedISO = Some ''2024-01-04'',
         activities = [\<lparr>id' = ''X'', name = ''Leer''\<rparr>], todayISO = ''2024-01-04''\<rparr>))
   \<and> entry (statusByDate (onPressCell ''X'' ''2024-01-04''
        \<lparr>statusByDate = [(''X'', [(''2024-01-03'', Missed)])], lastClosedISO = Some ''2024-01-04'',
         activities = [\<lparr>id' = ''X'', name = ''Leer''\<rparr>], todayISO = ''2024-01-04''\<rparr>))
        ''X'' ''2024-01-04'' = Some Done
   \<and> entry (statusByDate (onPressCell ''X'' ''2024-01-04''
        \<lparr>statusByDate = [(''X'', [(''2024-01-03'', Missed)])], lastClosedISO = Some ''2024-01-04'',
         activities = [\<lparr>id' = ''X'', name = ''Leer''\<rparr>], todayISO = ''2024-01-04''\<rparr>))
        ''X'' ''2024-01-03'' = Some Missed
   \<and> onPressCell ''X'' ''2024-01-03''
        \<lparr>statusByDate = [(''X'', [(''2024-01-03'', Missed)])], lastClosedISO = Some ''2024-01-04'',
         activities = [\<lparr>id' = ''X'', name = ''Leer''\<rparr>], todayISO = ''2024-01-04''\<rparr>
      = \<lparr>statusByDate = [(''X'', [(''2024-01-03'', Missed)])], lastClosedISO = Some ''2024-01-04'',
         activities = [\<lparr>id' = ''X'', name = ''Leer''\<rparr>], todayISO = ''2024-01-04''\<rparr>"
proof -
  let ?st = "\<lparr>statusByDate = [(''X'', [(''2024-01-03'', Missed)])], lastClosedISO = Some ''2024-01-04'',
         activities = [\<lparr>id' = ''X'', name = ''Leer''\<rparr>], todayISO = ''2024-01-04''\<rparr>"
  have m: "onlyMarks [(''X'', [(''2024-01-03'', Missed)])]"
    by (auto simp add: onlyMarks_def entry_def split: if_splits)
  have e: "entry [(''X'', [(''2024-01-03'', Missed)])] ''X'' ''2024-01-03'' = Some Missed"
    "getStatus [(''X'', [(''2024-01-03'', Missed)])] ''X'' ''2024-01-04'' = Null"
    by (simp_all add: entry_def getStatus_def)
  note o = operations_on_marks[of ?st madrid "[]" None "''2024-01-05''" "''2024-01-05''" "''u''" "''n''"
      "''X''" "''X''" "''2024-01-03''"]
  show ?thesis
    using o m e by simp
qed

text \<open>
  C8 as stated: every operation keeps the invariant, and a press on a \<^verbatim>\<open>"done"\<close> cell
  removes the property. The press stores an explicit \<^verbatim>\<open>null\<close> under the key.
\<close>

theorem onPressCell_stores_null_counterexample:
  "onlyMarks [(''X'', [(''2024-01-04'', Done)])]
   \<and> entry (statusByDate (onPressCell ''X'' ''2024-01-04''
        \<lparr>statusByDate = [(''X'', [(''2024-01-04'', Done)])], lastClosedISO = Some ''2024-01-04'',
         activities = [\<lparr>id' = ''X'', name = ''Leer''\<rparr>], todayISO = ''2024-01-04''\<rparr>))
        ''X'' ''2024-01-04'' = Some Null
   \<and> \<not> onlyMarks (statusByDate (onPressCell ''X'' ''2024-01-04''
        \<lparr>statusByDate = [(''X'', [(''2024-01-04'', Done)])], lastClosedISO = Some ''2024-01-04'',
         activities = [\<lparr>id' = ''X'', name = ''Leer''\<rparr>], todayISO = ''2024-01-04''\<rparr>))"
proof -
  let ?st = "\<lparr>statusByDate = [(''X'', [(''2024-01-04'', Done)])], lastClosedISO = Some ''2024-01-04'',
         activities = [\<lparr>id' = ''X'', name = ''Leer''\<rparr>], todayISO = ''2024-01-04''\<rparr>"
  have m: "onlyMarks [(''X'', [(''2024-01-04'', Done)])]"
    by (auto simp add: onlyMarks_def entry_def split: if_splits)
  have e: "entry (statusByDate (onPressCell ''X'' ''2024-01-04'' ?st)) ''X'' ''2024-01-04'' = Some Null"
    by (simp add: onPressCell_def entry_setStatus cycleTodayStatus_def getStatus_def)
  then have "\<not> onlyMarks (statusByDate (onPressCell ''X'' ''2024-01-04'' ?st))"
    unfolding onlyMarks_def by blast
  then show ?thesis using m e by simp
qed

section \<open>Decoding a day identifier\<close>

text \<open>
  C9 (amended). \<^verbatim>\<open>parseISO\<close> never fails: for every string it returns a date. When the
  string has fewer than three pieces between its \<^verbatim>\<open>-\<close> separators, or one of the first
  three pieces is not a finite number for \<^verbatim>\<open>Number\<close>, the date is the invalid date (time
  value \<^verbatim>\<open>NaN\<close>), returned like any other.
\<close>

theorem parseISO_never_fails:
  "parseISO_outcome tz s \<noteq> Inl e
   \<and> (length (splitDash s) < 3 \<or> (\<exists>c \<in> set (take 3 (splitDash s)). \<forall>r. StringToNumber c \<noteq> Num r)
       \<longrightarrow> parseISO_outcome tz s = Inr InvalidDate)"
proof (intro conjI impI)
  show "parseISO_outcome tz s \<noteq> Inl e" by (simp add: parseISO_outcome_def)
next
  assume h: "length (splitDash s) < 3
      \<or> (\<exists>c \<in> set (take 3 (splitDash s)). \<forall>r. StringToNumber c \<noteq> Num r)"
  show "parseISO_outcome tz s = Inr InvalidDate"
  proof (cases "splitDash s")
    case Nil
    then show ?thesis by (simp add: parseISO_outcome_def parseISO_def)
  next
    case 1: (Cons y r1)
    show ?thesis
    proof (cases r1)
      case Nil
      then show ?thesis using 1 by (simp add: parseISO_outcome_def parseISO_def)
    next
      case 2: (Cons m r2)
      show ?thesis
      proof (cases r2)
        case Nil
        then show ?thesis using 1 2 by (simp add: parseISO_outcome_def parseISO_def)
      next
        case 3: (Cons d r3)
        from h 1 2 3 have "(\<forall>r. StringToNumber y \<noteq> Num r) \<or> (\<forall>r. StringToNumber m \<noteq> Num r)
            \<or> (\<forall>r. StringToNumber d \<noteq> Num r)"
          by auto
        then have "newDate tz (StringToNumber y) (minusOne (StringToNumber m)) (StringToNumber d)
            = InvalidDate"
          by (cases "StringToNumber y"; cases "StringToNumber m"; cases "StringToNumber d")
             (auto simp add: newDate_def minusOne_def)
        then show ?thesis using 1 2 3 by (simp add: parseISO_outcome_def parseISO_def)
      qed
    qed
  qed
qed

theorem parseISO_never_fails_witness:
  "length (splitDash ''hoy'') < 3 \<and> parseISO_outcome madrid ''hoy'' = Inr InvalidDate
   \<and> StringToNumber ''ab'' = NaN \<and> parseISO_outcome madrid ''2024-ab-04'' = Inr InvalidDate"
proof -
  have n: "StringToNumber ''ab'' = NaN" by (simp add: number_eval)
  have s: "splitDash ''2024-ab-04'' = [''2024'', ''ab'', ''04'']" by simp
  have "\<exists>c \<in> set (take 3 (splitDash ''2024-ab-04'')). \<forall>r. StringToNumber c \<noteq> Num r"
    unfolding s using n by simp
  then show ?thesis
    using parseISO_never_fails[of madrid "''hoy''"] parseISO_never_fails[of madrid "''2024-ab-04''"] n
    by simp
qed

text \<open>
  C9 as stated: decoding a malformed day identifier fails with \<^verbatim>\<open>MalformedDateError\<close>. A
  month of 13 and a day of 45 are out of range, yet the string decodes without an error
  to the day that \<^verbatim>\<open>toISODate\<close> writes as 2025-02-14; a string that is no date at all
  decodes without an error to the invalid date.
\<close>

theorem parseISO_malformed_counterexample:
  "\<not> specWellFormed ''2024-13-45''
   \<and> parseISO_outcome madrid ''2024-13-45'' = Inr (LocalDay 20133)
   \<and> toISODate (LocalDay 20133) = ''2025-02-14''
   \<and> \<not> specWellFormed ''no-es-fecha''
   \<and> parseISO_outcome madrid ''no-es-fecha'' = Inr InvalidDate"
proof -
  have w1: "\<not> specWellFormed ''2024-13-45''"
    by (simp add: specWellFormed_def digitsValue_def digitValue_def lowerHex_def Let_def)
  have w2: "\<not> specWellFormed ''no-es-fecha''"
    by (simp add: specWellFormed_def)
  have n: "StringToNumber ''2024'' = Num 2024" "StringToNumber ''13'' = Num 13"
    "StringToNumber ''45'' = Num 45" "StringToNumber ''no'' = NaN"
    by (simp_all add: number_eval)
  have d: "MakeDay (MakeFullYear 2024) 12 45 = 20133"
    by (simp add: MakeDay_def MakeFullYear_def calendar_eval)
  have p1: "parseISO madrid ''2024-13-45'' = LocalDay 20133"
    using newDate_int[of madrid 2024 12 45] makeDate_valid[OF dstZone_madrid, of 20133]
    by (simp add: parseISO_def n minusOne_def d)
  have p2: "parseISO madrid ''no-es-fecha'' = InvalidDate"
    by (simp add: parseISO_def n newDate_def)
  have t: "toISODate (LocalDay 20133) = ''2025-02-14''"
    by (simp add: calendar_eval text_eval)
  show ?thesis using w1 w2 p1 p2 t by (simp add: parseISO_outcome_def)
qed

section \<open>Stored nulls and closure\<close>



end
